theory Spec2Isabelle
  imports Main "HOL-Library.Sublist"
begin

section \<open>Strings\<close>

text \<open>
  A JavaScript string is a sequence of UTF-16 code units. The model covers the strings
  whose code units lie in U+0000..U+00FF: one \<^typ>\<open>char\<close> is one code unit, read as its
  Latin-1 code point. On that range \<^verbatim>\<open>toLowerCase\<close> works unit by unit (A-Z and the
  Latin-1 capitals U+00C0..U+00DE without U+00D7 move up by 32) and never leaves the range.
\<close>

definition toLowerCase_unit :: "char \<Rightarrow> char" where
  "toLowerCase_unit c =
     (let n = (of_char c :: nat) in
      if (65 \<le> n \<and> n \<le> 90) \<or> (192 \<le> n \<and> n \<le> 222 \<and> n \<noteq> 215)
      then char_of (n + 32) else c)"

definition toLowerCase :: "string \<Rightarrow> string" where
  "toLowerCase s = map toLowerCase_unit s"

text \<open>
  The characters the regular expression class \<^verbatim>\<open>\s\<close> accepts, below U+0100: tab, line
  feed, vertical tab, form feed, carriage return, space and no-break space.
\<close>

definition isWhiteSpace :: "char \<Rightarrow> bool" where
  "isWhiteSpace c = ((of_char c :: nat) \<in> {9, 10, 11, 12, 13, 32, 160})"

text \<open>The character class \<^verbatim>\<open>[\s,&+]\<close> of \<^verbatim>\<open>searchNodes\<close>.\<close>

definition isSeparator :: "char \<Rightarrow> bool" where
  "isSeparator c = (isWhiteSpace c \<or> c = CHR '','' \<or> c = CHR ''&'' \<or> c = CHR ''+'')"

text \<open>
  \<^verbatim>\<open>String.prototype.split\<close> with the expression \<^verbatim>\<open>/[\s,&+]+/\<close>: every maximal run
  of separators is one cut, so a separator at the start or at the end of the string leaves
  an empty first or last piece, and the empty string splits into one empty piece.
\<close>

function split_regex :: "(char \<Rightarrow> bool) \<Rightarrow> string \<Rightarrow> string list" where
  "split_regex sep [] = [[]]"
| "split_regex sep (c # cs) =
     (if sep c then [] # split_regex sep (dropWhile sep cs)
      else (case split_regex sep cs of
              [] \<Rightarrow> [[c]]
            | w # ws \<Rightarrow> (c # w) # ws))"
  by pat_completeness auto
termination
  by (relation "measure (\<lambda>(sep, s). length s)")
     (auto simp: length_dropWhile_le less_Suc_eq_le)

text \<open>\<^verbatim>\<open>String.prototype.includes\<close>: the keyword occurs somewhere in the string.\<close>

fun str_includes :: "string \<Rightarrow> string \<Rightarrow> bool" where
  "str_includes [] k = (k = [])"
| "str_includes (c # cs) k = (prefix k (c # cs) \<or> str_includes cs k)"

section \<open>Data model\<close>

text \<open>
  The interfaces \<^verbatim>\<open>Entity\<close>, \<^verbatim>\<open>Relation\<close> and \<^verbatim>\<open>KnowledgeGraph\<close> of the type
  declarations. An optional property is an \<^typ>\<open>'a option\<close>: \<^term>\<open>None\<close> is
  \<^verbatim>\<open>undefined\<close>. The relation's fields \<^verbatim>\<open>from\<close> and \<^verbatim>\<open>to\<close> are
  \<open>rel_from\<close> and \<open>rel_to\<close> here.
\<close>

record entity =
  name :: string
  entityType :: string
  observations :: "string list"
  subdomain :: "string option"

record relation =
  rel_from :: string
  rel_to :: string
  relationType :: string

record knowledge_graph =
  entities :: "entity list"
  relations :: "relation list"

datatype error =
    NotFound string
  | IllTypedRecord

section \<open>JSON and the backing store\<close>

text \<open>
  The store is a text file of records, one per line. The text level of JSON belongs to
  the runtime; the model keeps what the program itself sees of it. A JSON value is a
  string, an array, or some other value (number, boolean, null, nested object), which no
  field of an entity or a relation may hold.
\<close>

datatype json =
    JString string
  | JArray "json list"
  | JOther

text \<open>
  An object is the list of its own properties in insertion order. The value of a property
  of an object in memory may be \<^verbatim>\<open>undefined\<close> (\<^term>\<open>None\<close>); a property of a
  parsed JSON text never is.
\<close>

type_synonym js_object = "(string \<times> json option) list"
type_synonym json_object = "(string \<times> json) list"

text \<open>
  A piece of the file between two line feeds, as \<^verbatim>\<open>loadGraph\<close> treats it:
  \<^item> \<open>Blank\<close>: \<^verbatim>\<open>trim()\<close> leaves nothing of it;
  \<^item> \<open>Malformed\<close>: \<^verbatim>\<open>JSON.parse\<close> throws on it;
  \<^item> \<open>NonRecord\<close>: it parses to a value that is not an object with properties
    (reading \<^verbatim>\<open>type\<close> of it gives \<^verbatim>\<open>undefined\<close>, or throws for \<^verbatim>\<open>null\<close>);
  \<^item> \<open>Object\<close>: it parses to the object with these properties.
  The text \<^verbatim>\<open>JSON.stringify\<close> writes for an object holds no line feed and parses back
  to that object, so a written line is the \<open>Object\<close> of what was written.
\<close>

datatype line =
    Blank
  | Malformed
  | NonRecord
  | Object json_object

text \<open>
  \<^verbatim>\<open>JSON.stringify\<close> of an object: the properties in order, those whose value is
  \<^verbatim>\<open>undefined\<close> left out.
\<close>

fun JSON_stringify :: "js_object \<Rightarrow> json_object" where
  "JSON_stringify [] = []"
| "JSON_stringify ((k, None) # ps) = JSON_stringify ps"
| "JSON_stringify ((k, Some v) # ps) = (k, v) # JSON_stringify ps"

text \<open>Reading a property of a parsed object: \<^term>\<open>None\<close> when it has none of that name.\<close>

definition get_prop :: "json_object \<Rightarrow> string \<Rightarrow> json option" where
  "get_prop item k = map_of item k"

text \<open>
  The file is absent (\<^term>\<open>None\<close>) or holds the pieces its text splits into at line
  feeds; the empty text is one blank piece. \<open>saves\<close> counts the completed calls of
  \<^verbatim>\<open>saveGraph\<close>; the program never reads it. Reading and writing the file always
  succeed: failures of the file system are not modelled.
\<close>

record store =
  memoryFile :: "line list option"
  saves :: nat

subsection \<open>loadGraph\<close>

text \<open>
  The entity and the relation a parsed record stands for. The program copies the four
  properties of an entity record and keeps every property but \<^verbatim>\<open>type\<close> of a relation
  record, without looking at their types. The model's graph is typed, so a record whose
  properties are not those of the declared interface has no image (\<^term>\<open>None\<close>), and
  \<open>loadGraph\<close> answers \<^term>\<open>IllTypedRecord\<close> for it: such a store is outside the model.
\<close>

fun as_string :: "json \<Rightarrow> string option" where
  "as_string (JString s) = Some s"
| "as_string _ = None"

fun as_strings :: "json \<Rightarrow> string list option" where
  "as_strings (JArray vs) = those (map as_string vs)"
| "as_strings _ = None"

definition entity_of :: "json_object \<Rightarrow> entity option" where
  "entity_of item =
     (case (Option.bind (get_prop item ''name'') as_string,
            Option.bind (get_prop item ''entityType'') as_string,
            Option.bind (get_prop item ''observations'') as_strings) of
        (Some n, Some t, Some os) \<Rightarrow>
          (case get_prop item ''subdomain'' of
             None \<Rightarrow> Some \<lparr>name = n, entityType = t, observations = os, subdomain = None\<rparr>
           | Some (JString d) \<Rightarrow>
               Some \<lparr>name = n, entityType = t, observations = os, subdomain = Some d\<rparr>
           | Some _ \<Rightarrow> None)
      | _ \<Rightarrow> None)"

definition relation_of :: "json_object \<Rightarrow> relation option" where
  "relation_of item =
     (let rest = filter (\<lambda>(k, v). k \<noteq> ''type'') item in
      case (Option.bind (get_prop rest ''from'') as_string,
            Option.bind (get_prop rest ''to'') as_string,
            Option.bind (get_prop rest ''relationType'') as_string) of
        (Some f, Some t, Some r) \<Rightarrow>
          (if set (map fst rest) = {''from'', ''to'', ''relationType''} \<and> distinct (map fst rest)
           then Some \<lparr>rel_from = f, rel_to = t, relationType = r\<rparr> else None)
      | _ \<Rightarrow> None)"

text \<open>
  The loop over the non-blank lines. A line that fails to parse is skipped; so is a record
  whose \<^verbatim>\<open>type\<close> is neither \<^verbatim>\<open>"entity"\<close> nor \<^verbatim>\<open>"relation"\<close>.
\<close>

fun load_lines :: "line list \<Rightarrow> knowledge_graph \<Rightarrow> error + knowledge_graph" where
  "load_lines [] graph = Inr graph"
| "load_lines (Object item # ls) graph =
     (if get_prop item ''type'' = Some (JString ''entity'') then
        (case entity_of item of
           None \<Rightarrow> Inl IllTypedRecord
         | Some e \<Rightarrow> load_lines ls (graph\<lparr>entities := entities graph @ [e]\<rparr>))
      else if get_prop item ''type'' = Some (JString ''relation'') then
        (case relation_of item of
           None \<Rightarrow> Inl IllTypedRecord
         | Some r \<Rightarrow> load_lines ls (graph\<lparr>relations := relations graph @ [r]\<rparr>))
      else load_lines ls graph)"
| "load_lines (_ # ls) graph = load_lines ls graph"

definition empty_graph :: knowledge_graph where
  "empty_graph = \<lparr>entities = [], relations = []\<rparr>"

text \<open>
  \<^verbatim>\<open>loadGraph\<close>: an absent file is created with the empty text and the empty graph is
  returned; otherwise the non-blank lines are read in order.
\<close>

definition loadGraph :: "store \<Rightarrow> (error + knowledge_graph) \<times> store" where
  "loadGraph s =
     (case memoryFile s of
        None \<Rightarrow> (Inr empty_graph, s\<lparr>memoryFile := Some [Blank]\<rparr>)
      | Some data \<Rightarrow> (load_lines (filter (\<lambda>l. l \<noteq> Blank) data) empty_graph, s))"

subsection \<open>saveGraph\<close>

definition entityWithType :: "entity \<Rightarrow> js_object" where
  "entityWithType e =
     [(''type'', Some (JString ''entity'')),
      (''name'', Some (JString (name e))),
      (''entityType'', Some (JString (entityType e))),
      (''observations'', Some (JArray (map JString (observations e)))),
      (''subdomain'', map_option JString (subdomain e))]"

definition relationWithType :: "relation \<Rightarrow> js_object" where
  "relationWithType r =
     [(''type'', Some (JString ''relation'')),
      (''from'', Some (JString (rel_from r))),
      (''to'', Some (JString (rel_to r))),
      (''relationType'', Some (JString (relationType r)))]"

text \<open>
  \<^verbatim>\<open>lines.join("\n") + "\n"\<close>, as the pieces of the text written: joining no line gives
  the empty text, which is one blank piece, and the final line feed opens one more.
\<close>

definition join_newline :: "line list \<Rightarrow> line list" where
  "join_newline ls = (if ls = [] then [Blank] else ls) @ [Blank]"

definition graph_lines :: "knowledge_graph \<Rightarrow> line list" where
  "graph_lines graph =
     map (\<lambda>e. Object (JSON_stringify (entityWithType e))) (entities graph) @
     map (\<lambda>r. Object (JSON_stringify (relationWithType r))) (relations graph)"

definition saveGraph :: "knowledge_graph \<Rightarrow> store \<Rightarrow> store" where
  "saveGraph graph s =
     s\<lparr>memoryFile := Some (join_newline (graph_lines graph)), saves := Suc (saves s)\<rparr>"

section \<open>KnowledgeGraphManager\<close>

text \<open>
  Every operation takes the store and returns its result, or the error thrown, together
  with the store it leaves. An error of \<open>loadGraph\<close> ends the operation.
\<close>

subsection \<open>createEntities\<close>

definition createEntities :: "entity list \<Rightarrow> store \<Rightarrow> (error + entity list) \<times> store" where
  "createEntities es s =
     (case loadGraph s of
        (Inl err, s1) \<Rightarrow> (Inl err, s1)
      | (Inr graph, s1) \<Rightarrow>
          (let newEntities =
                 filter (\<lambda>e. \<not> list_ex (\<lambda>existingEntity. name existingEntity = name e)
                                   (entities graph)) es
           in if length newEntities > 0 then
                (let graph' = graph\<lparr>entities := entities graph @
                        map (\<lambda>e. \<lparr>name = name e, entityType = entityType e,
                                  observations = observations e, subdomain = subdomain e\<rparr>)
                            newEntities\<rparr>
                 in (Inr newEntities, saveGraph graph' s1))
              else (Inr newEntities, s1)))"

subsection \<open>createRelations\<close>

definition createRelations :: "relation list \<Rightarrow> store \<Rightarrow> (error + relation list) \<times> store" where
  "createRelations rs s =
     (case loadGraph s of
        (Inl err, s1) \<Rightarrow> (Inl err, s1)
      | (Inr graph, s1) \<Rightarrow>
          (let newRelations =
                 filter (\<lambda>r. \<not> list_ex (\<lambda>existingRelation.
                                      rel_from existingRelation = rel_from r \<and>
                                      rel_to existingRelation = rel_to r \<and>
                                      relationType existingRelation = relationType r)
                                   (relations graph)) rs;
               graph' = graph\<lparr>relations := relations graph @ newRelations\<rparr>
           in (Inr newRelations, saveGraph graph' s1)))"

subsection \<open>addObservations\<close>

record observation_input =
  entityName :: string
  contents :: "string list"

record observation_result =
  resultName :: string
  addedObservations :: "string list"

text \<open>
  \<^verbatim>\<open>find\<close> returns the first entity with the name, and the program changes that
  object in place: \<open>update_found\<close> applies the change to the first element that
  satisfies the test.
\<close>

fun update_found :: "('a \<Rightarrow> bool) \<Rightarrow> ('a \<Rightarrow> 'a) \<Rightarrow> 'a list \<Rightarrow> 'a list" where
  "update_found P f [] = []"
| "update_found P f (x # xs) = (if P x then f x # xs else x # update_found P f xs)"

text \<open>
  The callback of \<^verbatim>\<open>observations.map\<close> runs item by item on the graph as the items
  before left it; the first item whose entity is missing throws, and nothing after it runs.
\<close>

fun add_each ::
  "observation_input list \<Rightarrow> knowledge_graph \<Rightarrow> error + (observation_result list \<times> knowledge_graph)"
where
  "add_each [] graph = Inr ([], graph)"
| "add_each (item # items) graph =
     (case find (\<lambda>e. name e = entityName item) (entities graph) of
        None \<Rightarrow> Inl (NotFound (entityName item))
      | Some entity \<Rightarrow>
          (let newObservations =
                 filter (\<lambda>content. content \<notin> set (observations entity)) (contents item);
               graph' = graph\<lparr>entities :=
                 update_found (\<lambda>e. name e = entityName item)
                   (\<lambda>e. e\<lparr>observations := observations e @ newObservations\<rparr>)
                   (entities graph)\<rparr>
           in case add_each items graph' of
                Inl err \<Rightarrow> Inl err
              | Inr (results, graph'') \<Rightarrow>
                  Inr (\<lparr>resultName = entityName item, addedObservations = newObservations\<rparr> # results,
                       graph'')))"

definition addObservations ::
  "observation_input list \<Rightarrow> store \<Rightarrow> (error + observation_result list) \<times> store"
where
  "addObservations obs s =
     (case loadGraph s of
        (Inl err, s1) \<Rightarrow> (Inl err, s1)
      | (Inr graph, s1) \<Rightarrow>
          (case add_each obs graph of
             Inl err \<Rightarrow> (Inl err, s1)
           | Inr (results, graph') \<Rightarrow> (Inr results, saveGraph graph' s1)))"

subsection \<open>deleteEntities\<close>

definition deleteEntities :: "string list \<Rightarrow> store \<Rightarrow> (error + unit) \<times> store" where
  "deleteEntities entityNames s =
     (case loadGraph s of
        (Inl err, s1) \<Rightarrow> (Inl err, s1)
      | (Inr graph, s1) \<Rightarrow>
          (let graph1 = graph\<lparr>entities :=
                 filter (\<lambda>e. name e \<notin> set entityNames) (entities graph)\<rparr>;
               graph2 = graph1\<lparr>relations :=
                 filter (\<lambda>r. rel_from r \<notin> set entityNames \<and> rel_to r \<notin> set entityNames)
                        (relations graph1)\<rparr>
           in (Inr (), saveGraph graph2 s1)))"

subsection \<open>deleteObservations\<close>

record deletion_input =
  deletionName :: string
  deletedObservations :: "string list"

fun delete_each :: "deletion_input list \<Rightarrow> knowledge_graph \<Rightarrow> knowledge_graph" where
  "delete_each [] graph = graph"
| "delete_each (d # ds) graph =
     (case find (\<lambda>e. name e = deletionName d) (entities graph) of
        None \<Rightarrow> delete_each ds graph
      | Some entity \<Rightarrow>
          delete_each ds (graph\<lparr>entities :=
            update_found (\<lambda>e. name e = deletionName d)
              (\<lambda>e. e\<lparr>observations :=
                        filter (\<lambda>ob. ob \<notin> set (deletedObservations d)) (observations e)\<rparr>)
              (entities graph)\<rparr>))"

definition deleteObservations :: "deletion_input list \<Rightarrow> store \<Rightarrow> (error + unit) \<times> store" where
  "deleteObservations deletions s =
     (case loadGraph s of
        (Inl err, s1) \<Rightarrow> (Inl err, s1)
      | (Inr graph, s1) \<Rightarrow> (Inr (), saveGraph (delete_each deletions graph) s1))"

subsection \<open>deleteRelations\<close>

definition deleteRelations :: "relation list \<Rightarrow> store \<Rightarrow> (error + unit) \<times> store" where
  "deleteRelations rs s =
     (case loadGraph s of
        (Inl err, s1) \<Rightarrow> (Inl err, s1)
      | (Inr graph, s1) \<Rightarrow>
          (let graph' = graph\<lparr>relations :=
                 filter (\<lambda>r. \<not> list_ex (\<lambda>delRelation.
                                      rel_from r = rel_from delRelation \<and>
                                      rel_to r = rel_to delRelation \<and>
                                      relationType r = relationType delRelation) rs)
                        (relations graph)\<rparr>
           in (Inr (), saveGraph graph' s1)))"

subsection \<open>readGraph, searchNodes, openNodes\<close>

definition readGraph :: "store \<Rightarrow> (error + knowledge_graph) \<times> store" where
  "readGraph s = loadGraph s"

text \<open>The keywords of a query: lower-cased, split, the empty pieces dropped.\<close>

definition keywords_of :: "string \<Rightarrow> string list" where
  "keywords_of query =
     (let normalizedQuery = toLowerCase query
      in filter (\<lambda>k. length k > 0) (split_regex isSeparator normalizedQuery))"

text \<open>The filter callback of \<^verbatim>\<open>searchNodes\<close>, without its logging.\<close>

definition hasMatch :: "string list \<Rightarrow> entity \<Rightarrow> bool" where
  "hasMatch keywords e =
     (let field_name = toLowerCase (name e);
          field_type = toLowerCase (entityType e);
          field_subdomain = (case subdomain e of None \<Rightarrow> [] | Some d \<Rightarrow> toLowerCase d);
          field_observations = map toLowerCase (observations e);
          keywordMatches =
            map (\<lambda>keyword.
                   (let nameMatch = str_includes field_name keyword;
                        typeMatch = str_includes field_type keyword;
                        subdomainMatch = str_includes field_subdomain keyword;
                        observationMatch =
                          list_ex (\<lambda>ob. str_includes ob keyword) field_observations
                    in nameMatch \<or> typeMatch \<or> subdomainMatch \<or> observationMatch))
                keywords
      in list_ex (\<lambda>match. match) keywordMatches)"

definition induced_relations :: "entity list \<Rightarrow> relation list \<Rightarrow> relation list" where
  "induced_relations filteredEntities rs =
     (let filteredEntityNames = set (map name filteredEntities)
      in filter (\<lambda>r. rel_from r \<in> filteredEntityNames \<and> rel_to r \<in> filteredEntityNames) rs)"

definition searchNodes :: "string \<Rightarrow> store \<Rightarrow> (error + knowledge_graph) \<times> store" where
  "searchNodes query s =
     (case loadGraph s of
        (Inl err, s1) \<Rightarrow> (Inl err, s1)
      | (Inr graph, s1) \<Rightarrow>
          (let keywords = keywords_of query
           in if length keywords = 0 then (Inr \<lparr>entities = [], relations = []\<rparr>, s1)
              else
                (let filteredEntities = filter (hasMatch keywords) (entities graph);
                     filteredRelations = induced_relations filteredEntities (relations graph)
                 in (Inr \<lparr>entities = filteredEntities, relations = filteredRelations\<rparr>, s1))))"

definition openNodes :: "string list \<Rightarrow> store \<Rightarrow> (error + knowledge_graph) \<times> store" where
  "openNodes names s =
     (case loadGraph s of
        (Inl err, s1) \<Rightarrow> (Inl err, s1)
      | (Inr graph, s1) \<Rightarrow>
          (let filteredEntities = filter (\<lambda>e. name e \<in> set names) (entities graph);
               filteredRelations = induced_relations filteredEntities (relations graph)
           in (Inr \<lparr>entities = filteredEntities, relations = filteredRelations\<rparr>, s1)))"

subsection \<open>The tool handler\<close>

text \<open>
  The request handler of the server takes the name of a tool and its arguments and calls
  the operation of that name. A call is modelled with its arguments; \<open>call_tool\<close> gives
  the store the call leaves (the text of the response is not modelled), and
  \<open>run_calls\<close> serves a sequence of requests one after the other.
\<close>

datatype call =
    CreateEntities "entity list"
  | CreateRelations "relation list"
  | AddObservations "observation_input list"
  | DeleteEntities "string list"
  | DeleteObservations "deletion_input list"
  | DeleteRelations "relation list"
  | ReadGraph
  | SearchNodes string
  | OpenNodes "string list"

fun call_tool :: "call \<Rightarrow> store \<Rightarrow> store" where
  "call_tool (CreateEntities es) s = snd (createEntities es s)"
| "call_tool (CreateRelations rs) s = snd (createRelations rs s)"
| "call_tool (AddObservations obs) s = snd (addObservations obs s)"
| "call_tool (DeleteEntities ns) s = snd (deleteEntities ns s)"
| "call_tool (DeleteObservations ds) s = snd (deleteObservations ds s)"
| "call_tool (DeleteRelations rs) s = snd (deleteRelations rs s)"
| "call_tool ReadGraph s = snd (readGraph s)"
| "call_tool (SearchNodes query) s = snd (searchNodes query s)"
| "call_tool (OpenNodes names) s = snd (openNodes names s)"

fun run_calls :: "call list \<Rightarrow> store \<Rightarrow> store" where
  "run_calls [] s = s"
| "run_calls (c # cs) s = run_calls cs (call_tool c s)"

text \<open>
  A call whose input lists of observations hold no string twice: the observations of
  each entity given to \<^verbatim>\<open>createEntities\<close>, the contents of each item given to
  \<^verbatim>\<open>addObservations\<close>. Every other call qualifies.
\<close>

fun duplicate_free_input :: "call \<Rightarrow> bool" where
  "duplicate_free_input (CreateEntities es) = (\<forall>e\<in>set es. distinct (observations e))"
| "duplicate_free_input (AddObservations obs) = (\<forall>item\<in>set obs. distinct (contents item))"
| "duplicate_free_input _ = True"

subsection \<open>The specification of the search\<close>

text \<open>
  The specification's tokens of a string, in its own words: the string is split on runs
  of separators and the empty pieces are dropped. So a token is a piece of the string that
  is not empty, holds no separator, and has a separator or an end of the string on each
  side. That a token occurs in a field is \<^const>\<open>sublist\<close>: the field is some text, the
  token, some text.
\<close>

definition spec_token :: "(char \<Rightarrow> bool) \<Rightarrow> string \<Rightarrow> string \<Rightarrow> bool" where
  "spec_token sep s t \<longleftrightarrow>
     t \<noteq> [] \<and> (\<forall>c\<in>set t. \<not> sep c) \<and>
     (\<exists>pre post. s = pre @ t @ post \<and>
        (pre = [] \<or> sep (last pre)) \<and> (post = [] \<or> sep (hd post)))"

text \<open>The invariant on observations: no entity of the graph holds a string twice.\<close>

definition observations_distinct :: "knowledge_graph \<Rightarrow> bool" where
  "observations_distinct g = (\<forall>e\<in>set (entities g). distinct (observations e))"

text \<open>The store before the program has ever run: no file yet.\<close>

definition initial_store :: store where
  "initial_store = \<lparr>memoryFile = None, saves = 0\<rparr>"

subsection \<open>Examples\<close>

text \<open>
  A store for the examples: a line that does not parse, the record of an entity without
  subdomain, an empty line, the record of an entity with a subdomain, the record of a
  relation, a line holding a bare number, and the empty piece after the last line feed.
  The graph it holds follows.
\<close>

definition example_store :: store where
  "example_store =
     \<lparr>memoryFile = Some
        [Malformed,
         Object [(''type'', JString ''entity''), (''name'', JString ''A''),
                 (''entityType'', JString ''Concept''),
                 (''observations'', JArray [JString ''first''])],
         Blank,
         Object [(''type'', JString ''entity''), (''name'', JString ''B''),
                 (''entityType'', JString ''Component''),
                 (''observations'', JArray [JString ''second'']),
                 (''subdomain'', JString ''core'')],
         Object [(''type'', JString ''relation''), (''from'', JString ''A''),
                 (''to'', JString ''B''), (''relationType'', JString ''uses'')],
         NonRecord,
         Blank],
      saves = 0\<rparr>"

definition example_graph :: knowledge_graph where
  "example_graph =
     \<lparr>entities =
        [\<lparr>name = ''A'', entityType = ''Concept'', observations = [''first''],
          subdomain = None\<rparr>,
         \<lparr>name = ''B'', entityType = ''Component'', observations = [''second''],
          subdomain = Some ''core''\<rparr>],
      relations = [\<lparr>rel_from = ''A'', rel_to = ''B'', relationType = ''uses''\<rparr>]\<rparr>"

section \<open>Persistence: what is written is read back\<close>

lemma those_as_string: "those (map (as_string \<circ> JString) xs) = Some xs"
  by (induction xs) auto

lemma entity_of_stringify: "entity_of (JSON_stringify (entityWithType e)) = Some e"
  by (cases "subdomain e")
     (simp_all add: entity_of_def entityWithType_def get_prop_def those_as_string)

lemma relation_of_stringify: "relation_of (JSON_stringify (relationWithType r)) = Some r"
  by (auto simp add: relation_of_def relationWithType_def get_prop_def)

lemma type_entity_line:
  "get_prop (JSON_stringify (entityWithType e)) ''type'' = Some (JString ''entity'')"
  by (simp add: entityWithType_def get_prop_def)

lemma type_relation_line:
  "get_prop (JSON_stringify (relationWithType r)) ''type'' = Some (JString ''relation'')"
  by (simp add: relationWithType_def get_prop_def)

lemma load_relation_lines:
  "load_lines (map (\<lambda>r. Object (JSON_stringify (relationWithType r))) rs) g
     = Inr (g\<lparr>relations := relations g @ rs\<rparr>)"
  by (induction rs arbitrary: g) (simp_all add: type_relation_line relation_of_stringify)

lemma load_entity_lines:
  "load_lines (map (\<lambda>e. Object (JSON_stringify (entityWithType e))) es @ ls) g
     = load_lines ls (g\<lparr>entities := entities g @ es\<rparr>)"
  by (induction es arbitrary: g) (simp_all add: type_entity_line entity_of_stringify)

lemma graph_lines_not_blank: "filter (\<lambda>l. l \<noteq> Blank) (graph_lines g) = graph_lines g"
  by (simp add: graph_lines_def)

lemma load_graph_lines: "load_lines (graph_lines g) empty_graph = Inr g"
  by (simp add: graph_lines_def load_entity_lines load_relation_lines empty_graph_def)

lemma loadGraph_saveGraph: "loadGraph (saveGraph g s) = (Inr g, saveGraph g s)"
proof -
  have "filter (\<lambda>l. l \<noteq> Blank) (join_newline (graph_lines g)) = graph_lines g"
    by (simp add: join_newline_def graph_lines_not_blank)
  then show ?thesis
    by (simp add: loadGraph_def saveGraph_def load_graph_lines)
qed

lemma loadGraph_present: "memoryFile s \<noteq> None \<Longrightarrow> snd (loadGraph s) = s"
  by (auto simp: loadGraph_def split: option.splits)

lemma loadGraph_saves: "saves (snd (loadGraph s)) = saves s"
  by (auto simp: loadGraph_def split: option.splits)

lemma loadGraph_again:
  "fst (loadGraph s) = Inr g \<Longrightarrow> loadGraph (snd (loadGraph s)) = (Inr g, snd (loadGraph s))"
  by (auto simp: loadGraph_def split: option.splits)

lemma loadGraph_pair: "fst (loadGraph s) = Inr g \<Longrightarrow> loadGraph s = (Inr g, snd (loadGraph s))"
  by (metis prod.collapse)

lemma load_example_store: "loadGraph example_store = (Inr example_graph, example_store)"
  by (simp add: loadGraph_def example_store_def example_graph_def empty_graph_def
        get_prop_def entity_of_def relation_of_def)

text \<open>
  C8. Saving a graph and loading the store again gives the same entities and the same
  relations, in the same order, for every graph (subdomains absent or not) and whatever
  the store held before; the load leaves the written store as it is. In particular saving
  the graph a store holds does not change the graph it holds.
\<close>

theorem save_load_roundtrip:
  "loadGraph (saveGraph graph s) = (Inr graph, saveGraph graph s) \<and>
   (fst (loadGraph s) = Inr graph \<longrightarrow>
      fst (loadGraph (saveGraph graph (snd (loadGraph s)))) = Inr graph)"
  by (simp add: loadGraph_saveGraph)

theorem save_load_roundtrip_witness:
  "fst (loadGraph example_store) = Inr example_graph \<and>
   loadGraph (saveGraph example_graph example_store)
     = (Inr example_graph, saveGraph example_graph example_store) \<and>
   fst (loadGraph (saveGraph example_graph (snd (loadGraph example_store)))) = Inr example_graph"
proof -
  have h: "fst (loadGraph example_store) = Inr example_graph"
    by (simp add: load_example_store)
  from save_load_roundtrip [of example_graph example_store] h show ?thesis
    by blast
qed

text \<open>
  C9, as the specification states it: the line saved for an entity would hold the key
  \<^verbatim>\<open>subdomain\<close> even when the entity has none. It does not: for the graph of one
  entity without subdomain the file written has four keys in its line.
\<close>

theorem saved_line_without_subdomain_counterexample:
  "memoryFile (saveGraph
       \<lparr>entities = [\<lparr>name = ''A'', entityType = ''T'', observations = [],
                     subdomain = None\<rparr>],
        relations = []\<rparr> initial_store)
   = Some [Object [(''type'', JString ''entity''), (''name'', JString ''A''),
                   (''entityType'', JString ''T''), (''observations'', JArray [])],
           Blank]"
  by (simp add: saveGraph_def graph_lines_def join_newline_def entityWithType_def)

text \<open>
  C9, amended. The record \<^verbatim>\<open>saveGraph\<close> builds for the i-th entity has the five keys
  type, name, entityType, observations and subdomain; the i-th line written holds type,
  name, entityType and observations always and subdomain exactly when the entity has
  one, and it is read back as the same entity.
\<close>

theorem saved_entity_line:
  "i < length (entities graph) \<Longrightarrow>
     \<exists>ls item. memoryFile (saveGraph graph s) = Some ls \<and> ls ! i = Object item \<and>
       item = JSON_stringify (entityWithType (entities graph ! i)) \<and>
       map fst (entityWithType (entities graph ! i))
         = [''type'', ''name'', ''entityType'', ''observations'', ''subdomain''] \<and>
       map fst item
         = [''type'', ''name'', ''entityType'', ''observations''] @
           (if subdomain (entities graph ! i) = None then [] else [''subdomain'']) \<and>
       entity_of item = Some (entities graph ! i)"
proof -
  assume i: "i < length (entities graph)"
  let ?e = "entities graph ! i"
  from i have nonempty: "graph_lines graph \<noteq> []"
    by (auto simp: graph_lines_def)
  from i have "graph_lines graph ! i = Object (JSON_stringify (entityWithType ?e))"
    by (simp add: graph_lines_def nth_append)
  moreover from i have "i < length (graph_lines graph)"
    by (simp add: graph_lines_def)
  ultimately have line: "join_newline (graph_lines graph) ! i
      = Object (JSON_stringify (entityWithType ?e))"
    using nonempty by (simp add: join_newline_def nth_append)
  have keys: "map fst (JSON_stringify (entityWithType ?e))
      = [''type'', ''name'', ''entityType'', ''observations''] @
        (if subdomain ?e = None then [] else [''subdomain''])"
    by (cases "subdomain ?e") (simp_all add: entityWithType_def)
  have all_keys: "map fst (entityWithType ?e)
      = [''type'', ''name'', ''entityType'', ''observations'', ''subdomain'']"
    by (simp add: entityWithType_def)
  show ?thesis
    using line keys all_keys entity_of_stringify [of ?e]
    by (simp add: saveGraph_def)
qed

theorem saved_entity_line_witness:
  "(0::nat) < length (entities example_graph) \<and>
   (\<exists>ls item. memoryFile (saveGraph example_graph initial_store) = Some ls \<and>
      ls ! 0 = Object item \<and>
      map fst item = [''type'', ''name'', ''entityType'', ''observations''] \<and>
      entity_of item = Some (entities example_graph ! 0))"
proof -
  have h: "(0::nat) < length (entities example_graph)"
    by (simp add: example_graph_def)
  have "subdomain (entities example_graph ! 0) = None"
    by (simp add: example_graph_def)
  with saved_entity_line [OF h, of initial_store] h show ?thesis
    by auto
qed

section \<open>The operations on a loaded graph\<close>

lemma relation_eq_iff:
  "(r = x) \<longleftrightarrow>
     rel_from r = rel_from x \<and> rel_to r = rel_to x \<and> relationType r = relationType x"
  for r x :: relation
  by (cases r; cases x) simp

lemma graph_updates:
  "g\<lparr>entities := a, relations := b\<rparr> = \<lparr>entities = a, relations = b\<rparr>"
  for g :: knowledge_graph
  by (cases g) simp

lemma list_ex_relation:
  "list_ex (\<lambda>x. rel_from x = rel_from r \<and> rel_to x = rel_to r \<and>
                  relationType x = relationType r) xs \<longleftrightarrow> r \<in> set xs"
  for r :: relation
proof -
  have "(rel_from x = rel_from r \<and> rel_to x = rel_to r \<and> relationType x = relationType r)
          \<longleftrightarrow> x = r" for x
    by (simp add: relation_eq_iff)
  then show ?thesis
    by (simp add: list_ex_iff)
qed

lemma list_ex_relation':
  "list_ex (\<lambda>x. rel_from r = rel_from x \<and> rel_to r = rel_to x \<and>
                  relationType r = relationType x) xs \<longleftrightarrow> r \<in> set xs"
  for r :: relation
proof -
  have "(rel_from r = rel_from x \<and> rel_to r = rel_to x \<and> relationType r = relationType x)
          \<longleftrightarrow> x = r" for x
    by (auto simp add: relation_eq_iff)
  then show ?thesis
    by (simp add: list_ex_iff)
qed

lemma list_ex_name: "list_ex (\<lambda>x. name x = n) xs \<longleftrightarrow> n \<in> name ` set xs"
  by (auto simp: list_ex_iff)

lemma entity_copy: "map (\<lambda>e. \<lparr>name = name e, entityType = entityType e,
    observations = observations e, subdomain = subdomain e\<rparr>) es = es"
  by (induction es) auto

lemma createEntities_loaded:
  assumes "loadGraph s = (Inr g, s1)"
  shows "createEntities es s =
     (Inr (filter (\<lambda>e. name e \<notin> name ` set (entities g)) es),
      if filter (\<lambda>e. name e \<notin> name ` set (entities g)) es = [] then s1
      else saveGraph (g\<lparr>entities := entities g @
             filter (\<lambda>e. name e \<notin> name ` set (entities g)) es\<rparr>) s1)"
  using assms
  by (simp add: createEntities_def Let_def list_ex_name entity_copy)

lemma createRelations_loaded:
  assumes "loadGraph s = (Inr g, s1)"
  shows "createRelations rs s =
     (Inr (filter (\<lambda>r. r \<notin> set (relations g)) rs),
      saveGraph (g\<lparr>relations := relations g @ filter (\<lambda>r. r \<notin> set (relations g)) rs\<rparr>) s1)"
  using assms
  by (simp add: createRelations_def Let_def list_ex_relation)

lemma deleteEntities_loaded:
  assumes "loadGraph s = (Inr g, s1)"
  shows "deleteEntities ns s =
     (Inr (), saveGraph \<lparr>entities = filter (\<lambda>e. name e \<notin> set ns) (entities g),
                        relations = filter (\<lambda>r. rel_from r \<notin> set ns \<and> rel_to r \<notin> set ns) (relations g)\<rparr>
                s1)"
  using assms
  by (simp add: deleteEntities_def Let_def graph_updates)

lemma deleteObservations_loaded:
  assumes "loadGraph s = (Inr g, s1)"
  shows "deleteObservations ds s = (Inr (), saveGraph (delete_each ds g) s1)"
  using assms
  by (simp add: deleteObservations_def)

lemma deleteRelations_loaded:
  assumes "loadGraph s = (Inr g, s1)"
  shows "deleteRelations rs s =
     (Inr (), saveGraph (g\<lparr>relations := filter (\<lambda>r. r \<notin> set rs) (relations g)\<rparr>) s1)"
  using assms
  by (simp add: deleteRelations_def Let_def list_ex_relation')

lemma addObservations_loaded:
  assumes "loadGraph s = (Inr g, s1)"
  shows "addObservations obs s =
     (case add_each obs g of
        Inl err \<Rightarrow> (Inl err, s1)
      | Inr (results, g') \<Rightarrow> (Inr results, saveGraph g' s1))"
  using assms
  by (simp add: addObservations_def)

lemma map_name_update_found:
  "(\<And>e. name (f e) = name e) \<Longrightarrow> map name (update_found P f es) = map name es"
  by (induction es) auto

lemma find_name_None: "find (\<lambda>e. name e = n) es = None \<longleftrightarrow> n \<notin> name ` set es"
  by (auto simp: find_None_iff)

lemma add_each_names:
  "add_each obs g = Inr (results, g') \<Longrightarrow> map name (entities g') = map name (entities g)"
proof (induction obs arbitrary: g results)
  case Nil
  then show ?case by simp
next
  case (Cons item items)
  then show ?case
    by (auto simp: Let_def map_name_update_found split: option.splits sum.splits)
qed

lemma add_each_missing:
  assumes "find (\<lambda>item. entityName item \<notin> name ` set (entities g)) obs = Some missing"
  shows "add_each obs g = Inl (NotFound (entityName missing))"
  using assms
proof (induction obs arbitrary: g)
  case Nil
  then show ?case by simp
next
  case (Cons item items)
  show ?case
  proof (cases "entityName item \<in> name ` set (entities g)")
    case False
    then have "find (\<lambda>e. name e = entityName item) (entities g) = None"
      by (simp add: find_name_None)
    with Cons.prems False show ?thesis
      by simp
  next
    case True
    then obtain entity where found: "find (\<lambda>e. name e = entityName item) (entities g) = Some entity"
      using find_name_None [of "entityName item" "entities g"] by auto
    let ?g' = "g\<lparr>entities := update_found (\<lambda>e. name e = entityName item)
        (\<lambda>e. e\<lparr>observations := observations e @
            filter (\<lambda>content. content \<notin> set (observations entity)) (contents item)\<rparr>) (entities g)\<rparr>"
    have "map name (entities ?g') = map name (entities g)"
      by (simp add: map_name_update_found)
    then have "name ` set (entities ?g') = name ` set (entities g)"
      by (metis set_map)
    with Cons.prems True
    have "find (\<lambda>item. entityName item \<notin> name ` set (entities ?g')) items = Some missing"
      by simp
    from Cons.IH [OF this] found show ?thesis
      by (simp add: Let_def)
  qed
qed


lemma find_Some_ex: "\<exists>x\<in>set xs. P x \<Longrightarrow> \<exists>y. find P xs = Some y"
  by (cases "find P xs") (auto simp: find_None_iff)

section \<open>Creation\<close>

text \<open>
  What \<^verbatim>\<open>createEntities\<close> does keep: when the names of the graph are pairwise distinct
  and so are the names of the entities given, the names of the graph after the call are
  pairwise distinct.
\<close>

lemma createEntities_distinct_names:
  assumes "fst (loadGraph s) = Inr g"
    and "distinct (map name (entities g))" and "distinct (map name es)"
  shows "\<exists>g'. fst (loadGraph (snd (createEntities es s))) = Inr g' \<and>
           distinct (map name (entities g'))"
proof -
  have loaded: "loadGraph s = (Inr g, snd (loadGraph s))"
    using assms(1) by (rule loadGraph_pair)
  let ?new = "filter (\<lambda>e. name e \<notin> name ` set (entities g)) es"
  from assms(3) have "distinct (map name ?new)"
    by (rule distinct_map_filter)
  moreover have "set (map name (entities g)) \<inter> set (map name ?new) = {}"
    by (auto simp: image_iff)
  ultimately have "distinct (map name (entities g @ ?new))"
    using assms(2) by simp
  then show ?thesis
    using loadGraph_again [OF assms(1)] assms(2)
    by (simp add: createEntities_loaded [OF loaded] loadGraph_saveGraph)
qed

text \<open>
  C2. Entity names are meant to be pairwise distinct in every state the operations reach.
  The program fails this: a first call of \<^verbatim>\<open>createEntities\<close>, on the store that does
  not exist yet, with two entities of one name stores both, and \<^verbatim>\<open>readGraph\<close> shows
  two entities named A.
\<close>

theorem createEntities_same_name_twice:
  "fst (readGraph (snd (createEntities
      [\<lparr>name = ''A'', entityType = ''T'', observations = [], subdomain = None\<rparr>,
       \<lparr>name = ''A'', entityType = ''U'', observations = [''x''], subdomain = None\<rparr>]
      initial_store)))
   = Inr \<lparr>entities =
            [\<lparr>name = ''A'', entityType = ''T'', observations = [], subdomain = None\<rparr>,
             \<lparr>name = ''A'', entityType = ''U'', observations = [''x''], subdomain = None\<rparr>],
          relations = []\<rparr>"
  by (simp add: createEntities_def readGraph_def initial_store_def loadGraph_def
        empty_graph_def Let_def loadGraph_saveGraph [unfolded loadGraph_def])

text \<open>
  \<^verbatim>\<open>createEntities\<close> does not save when it adds nothing: the store is as the load left
  it. \<^verbatim>\<open>createRelations\<close> has no such test and saves on every call.
\<close>

lemma createEntities_nothing_new:
  assumes "fst (loadGraph s) = Inr g"
    and "\<forall>e\<in>set es. name e \<in> name ` set (entities g)"
  shows "createEntities es s = (Inr [], snd (loadGraph s))"
proof -
  have loaded: "loadGraph s = (Inr g, snd (loadGraph s))"
    using assms(1) by (rule loadGraph_pair)
  from assms(2) have "filter (\<lambda>e. name e \<notin> name ` set (entities g)) es = []"
    by (simp add: filter_empty_conv)
  then show ?thesis
    by (simp add: createEntities_loaded [OF loaded])
qed

lemma createRelations_always_saves:
  assumes "fst (loadGraph s) = Inr g"
  shows "saves (snd (createRelations rs s)) = Suc (saves s)"
proof -
  have loaded: "loadGraph s = (Inr g, snd (loadGraph s))"
    using assms(1) by (rule loadGraph_pair)
  show ?thesis
    by (simp add: createRelations_loaded [OF loaded] saveGraph_def loadGraph_saves)
qed

text \<open>
  C3. A call of \<^verbatim>\<open>createRelations\<close> that adds nothing should not write the store.
  The program writes it all the same: on a store that holds one relation, creating that
  relation again returns nothing new and saves; on the file with the empty text, creating
  no relation saves and leaves another text.
\<close>

theorem createRelations_saves_without_new:
  "createRelations [\<lparr>rel_from = ''A'', rel_to = ''B'', relationType = ''uses''\<rparr>]
      \<lparr>memoryFile = Some
         [Object [(''type'', JString ''relation''), (''from'', JString ''A''),
                  (''to'', JString ''B''), (''relationType'', JString ''uses'')],
          Blank],
       saves = 0\<rparr>
   = (Inr [],
      \<lparr>memoryFile = Some
         [Object [(''type'', JString ''relation''), (''from'', JString ''A''),
                  (''to'', JString ''B''), (''relationType'', JString ''uses'')],
          Blank],
       saves = 1\<rparr>) \<and>
   createRelations [] \<lparr>memoryFile = Some [Blank], saves = 0\<rparr>
   = (Inr [], \<lparr>memoryFile = Some [Blank, Blank], saves = 1\<rparr>)"
  by (simp add: createRelations_def loadGraph_def saveGraph_def graph_lines_def
        join_newline_def empty_graph_def get_prop_def relation_of_def relationWithType_def)

section \<open>Observations on a missing entity\<close>

text \<open>
  C4, as the specification states it: when some item names no entity of the graph, the
  store after the call is exactly the store before it. On the store that does not exist
  yet the graph is empty, every item names a missing entity, and the call that fails has
  created the file with the empty text.
\<close>

theorem addObservations_creates_file_counterexample:
  "initial_store = \<lparr>memoryFile = None, saves = 0\<rparr> \<and>
   fst (loadGraph initial_store) = Inr \<lparr>entities = [], relations = []\<rparr> \<and>
   addObservations [\<lparr>entityName = ''Z'', contents = [''z'']\<rparr>] initial_store
     = (Inl (NotFound ''Z''), \<lparr>memoryFile = Some [Blank], saves = 0\<rparr>)"
  by code_simp

text \<open>
  C4, amended. When the store holds a graph and some item of the batch names no entity of
  it, \<^verbatim>\<open>addObservations\<close> throws the not-found error of the first such item and
  \<^verbatim>\<open>saveGraph\<close> is not called: the store is as the load left it, which is the store
  before the call when the file existed and the file created with the empty text when it
  did not, and a later load gives the same graph, also when items before the failing one
  named entities that exist.
\<close>

theorem addObservations_missing_entity:
  assumes "fst (loadGraph s) = Inr graph"
    and "\<exists>item\<in>set obs. entityName item \<notin> name ` set (entities graph)"
  shows "\<exists>missing. find (\<lambda>item. entityName item \<notin> name ` set (entities graph)) obs = Some missing \<and>
           fst (addObservations obs s) = Inl (NotFound (entityName missing)) \<and>
           snd (addObservations obs s) = snd (loadGraph s) \<and>
           saves (snd (addObservations obs s)) = saves s \<and>
           (memoryFile s \<noteq> None \<longrightarrow> snd (addObservations obs s) = s) \<and>
           (memoryFile s = None \<longrightarrow>
              snd (addObservations obs s) = s\<lparr>memoryFile := Some [Blank]\<rparr>) \<and>
           fst (loadGraph (snd (addObservations obs s))) = Inr graph"
proof -
  from assms(2)
  have "\<exists>y. find (\<lambda>item. entityName item \<notin> name ` set (entities graph)) obs = Some y"
    by (rule find_Some_ex)
  then obtain missing
    where missing: "find (\<lambda>item. entityName item \<notin> name ` set (entities graph)) obs = Some missing"
    ..
  have loaded: "loadGraph s = (Inr graph, snd (loadGraph s))"
    using assms(1) by (rule loadGraph_pair)
  have result: "addObservations obs s = (Inl (NotFound (entityName missing)), snd (loadGraph s))"
    by (simp add: addObservations_loaded [OF loaded] add_each_missing [OF missing])
  have "fst (addObservations obs s) = Inl (NotFound (entityName missing))"
    and "snd (addObservations obs s) = snd (loadGraph s)"
    by (simp_all add: result)
  moreover have "saves (snd (addObservations obs s)) = saves s"
    by (simp add: result loadGraph_saves)
  moreover have "memoryFile s \<noteq> None \<longrightarrow> snd (addObservations obs s) = s"
    by (simp add: result loadGraph_present)
  moreover have "memoryFile s = None \<longrightarrow>
      snd (addObservations obs s) = s\<lparr>memoryFile := Some [Blank]\<rparr>"
    by (simp add: result loadGraph_def)
  moreover have "fst (loadGraph (snd (addObservations obs s))) = Inr graph"
    by (simp add: result loadGraph_again [OF assms(1)])
  ultimately show ?thesis
    using missing by (intro exI [of _ missing] conjI)
qed

theorem addObservations_missing_entity_witness:
  "fst (loadGraph example_store) = Inr example_graph \<and>
   (\<exists>item\<in>set [\<lparr>entityName = ''A'', contents = [''new'']\<rparr>,
                  \<lparr>entityName = ''Z'', contents = [''z'']\<rparr>].
      entityName item \<notin> name ` set (entities example_graph)) \<and>
   memoryFile example_store \<noteq> None \<and>
   addObservations [\<lparr>entityName = ''A'', contents = [''new'']\<rparr>,
                    \<lparr>entityName = ''Z'', contents = [''z'']\<rparr>] example_store
     = (Inl (NotFound ''Z''), example_store) \<and>
   fst (loadGraph initial_store) = Inr empty_graph \<and>
   memoryFile initial_store = None \<and>
   snd (addObservations [\<lparr>entityName = ''Z'', contents = [''z'']\<rparr>] initial_store)
     = initial_store\<lparr>memoryFile := Some [Blank]\<rparr> \<and>
   fst (loadGraph (snd (addObservations [\<lparr>entityName = ''Z'', contents = [''z'']\<rparr>]
      initial_store))) = Inr empty_graph"
proof -
  let ?obs = "[\<lparr>entityName = ''A'', contents = [''new'']\<rparr>,
               \<lparr>entityName = ''Z'', contents = [''z'']\<rparr>]"
  let ?one = "[\<lparr>entityName = ''Z'', contents = [''z'']\<rparr>]"
  have h1: "fst (loadGraph example_store) = Inr example_graph"
    by (simp add: load_example_store)
  have h2: "\<exists>item\<in>set ?obs. entityName item \<notin> name ` set (entities example_graph)"
    by (simp add: example_graph_def)
  have first: "find (\<lambda>item. entityName item \<notin> name ` set (entities example_graph)) ?obs
      = Some \<lparr>entityName = ''Z'', contents = [''z'']\<rparr>"
    by (simp add: example_graph_def)
  have present: "memoryFile example_store \<noteq> None"
    by (simp add: example_store_def)
  from addObservations_missing_entity [OF h1 h2] first present
  have "fst (addObservations ?obs example_store) = Inl (NotFound ''Z'')"
    and "snd (addObservations ?obs example_store) = example_store"
    by auto
  then have existing: "addObservations ?obs example_store = (Inl (NotFound ''Z''), example_store)"
    by (metis prod.collapse)
  have i1: "fst (loadGraph initial_store) = Inr empty_graph"
    by (simp add: loadGraph_def initial_store_def)
  have i2: "\<exists>item\<in>set ?one. entityName item \<notin> name ` set (entities empty_graph)"
    by (simp add: empty_graph_def)
  have absent: "memoryFile initial_store = None"
    by (simp add: initial_store_def)
  from addObservations_missing_entity [OF i1 i2] absent
  have created: "snd (addObservations ?one initial_store)
      = initial_store\<lparr>memoryFile := Some [Blank]\<rparr>"
    and later: "fst (loadGraph (snd (addObservations ?one initial_store))) = Inr empty_graph"
    by blast+
  from h1 h2 present existing i1 absent created later show ?thesis
    by (intro conjI)
qed

section \<open>Deleting entities\<close>

text \<open>
  C5. When the store holds a graph, \<^verbatim>\<open>deleteEntities\<close> succeeds, and the graph
  a later load gives is the old one without the entities whose name is in the list and
  without the relations whose \<^verbatim>\<open>from\<close> or \<^verbatim>\<open>to\<close> is in the list, all others kept
  in their order. When no name of the list occurs in the graph (as the name of an entity
  or as an end of a relation) the graph is the old one.
\<close>

theorem deleteEntities_removes_exactly:
  assumes "fst (loadGraph s) = Inr graph"
  shows "fst (deleteEntities entityNames s) = Inr () \<and>
     fst (loadGraph (snd (deleteEntities entityNames s))) =
       Inr \<lparr>entities = filter (\<lambda>e. name e \<notin> set entityNames) (entities graph),
            relations = filter (\<lambda>r. rel_from r \<notin> set entityNames \<and> rel_to r \<notin> set entityNames)
                               (relations graph)\<rparr> \<and>
     ((\<forall>n\<in>set entityNames. n \<notin> name ` set (entities graph) \<and>
           n \<notin> rel_from ` set (relations graph) \<and> n \<notin> rel_to ` set (relations graph)) \<longrightarrow>
        fst (loadGraph (snd (deleteEntities entityNames s))) = Inr graph)"
proof -
  have loaded: "loadGraph s = (Inr graph, snd (loadGraph s))"
    using assms by (rule loadGraph_pair)
  have noop: "filter (\<lambda>e. name e \<notin> set entityNames) (entities graph) = entities graph \<and>
      filter (\<lambda>r. rel_from r \<notin> set entityNames \<and> rel_to r \<notin> set entityNames) (relations graph)
        = relations graph"
    if "\<forall>n\<in>set entityNames. n \<notin> name ` set (entities graph) \<and>
           n \<notin> rel_from ` set (relations graph) \<and> n \<notin> rel_to ` set (relations graph)"
    using that by (auto simp: filter_id_conv)
  show ?thesis
    using noop
    by (auto simp add: deleteEntities_loaded [OF loaded] loadGraph_saveGraph)
qed

theorem deleteEntities_removes_exactly_witness:
  "fst (loadGraph example_store) = Inr example_graph \<and>
   fst (deleteEntities [''A''] example_store) = Inr () \<and>
   fst (loadGraph (snd (deleteEntities [''A''] example_store)))
     = Inr \<lparr>entities = [\<lparr>name = ''B'', entityType = ''Component'',
                           observations = [''second''], subdomain = Some ''core''\<rparr>],
            relations = []\<rparr> \<and>
   ''Zed'' \<notin> name ` set (entities example_graph) \<and>
   ''Zed'' \<notin> rel_from ` set (relations example_graph) \<and>
   ''Zed'' \<notin> rel_to ` set (relations example_graph) \<and>
   fst (loadGraph (snd (deleteEntities [''Zed''] example_store))) = Inr example_graph"
proof -
  have h: "fst (loadGraph example_store) = Inr example_graph"
    by (simp add: load_example_store)
  have absent: "\<forall>n\<in>set [''Zed'']. n \<notin> name ` set (entities example_graph) \<and>
       n \<notin> rel_from ` set (relations example_graph) \<and>
       n \<notin> rel_to ` set (relations example_graph)"
    by (simp add: example_graph_def)
  have "fst (deleteEntities [''A''] example_store) = Inr ()"
    and "fst (loadGraph (snd (deleteEntities [''A''] example_store)))
     = Inr \<lparr>entities = [\<lparr>name = ''B'', entityType = ''Component'',
                           observations = [''second''], subdomain = Some ''core''\<rparr>],
            relations = []\<rparr>"
    using deleteEntities_removes_exactly [OF h, of "[''A'']"]
    by (simp_all add: example_graph_def)
  moreover have "fst (loadGraph (snd (deleteEntities [''Zed''] example_store))) = Inr example_graph"
    using deleteEntities_removes_exactly [OF h, of "[''Zed'']"] absent
    by blast
  ultimately show ?thesis
    using h absent by simp
qed

section \<open>Creating an entity twice\<close>

text \<open>
  C6. When a call of \<^verbatim>\<open>createEntities\<close> with the one entity e adds e, a second call
  with e returns the empty list and leaves the store as the first call left it; the graph
  then is the starting graph followed by e, and e is its only entity of that name.
\<close>

theorem createEntities_idempotent:
  assumes "fst (createEntities [e] s) = Inr [e]"
  shows "\<exists>graph. fst (loadGraph s) = Inr graph \<and>
     createEntities [e] (snd (createEntities [e] s)) = (Inr [], snd (createEntities [e] s)) \<and>
     fst (loadGraph (snd (createEntities [e] (snd (createEntities [e] s)))))
       = Inr (graph\<lparr>entities := entities graph @ [e]\<rparr>) \<and>
     filter (\<lambda>x. name x = name e) (entities graph @ [e]) = [e]"
proof -
  obtain r s1 where ls: "loadGraph s = (r, s1)"
    by force
  have "\<exists>graph. fst (loadGraph s) = Inr graph"
  proof (cases r)
    case (Inl err)
    with ls have "fst (createEntities [e] s) = Inl err"
      by (simp add: createEntities_def)
    with assms show ?thesis by simp
  next
    case (Inr g)
    with ls show ?thesis by simp
  qed
  then obtain graph where graph: "fst (loadGraph s) = Inr graph" ..
  have loaded: "loadGraph s = (Inr graph, snd (loadGraph s))"
    using graph by (rule loadGraph_pair)
  let ?g' = "graph\<lparr>entities := entities graph @ [e]\<rparr>"
  let ?s' = "saveGraph ?g' (snd (loadGraph s))"
  from assms have fresh: "name e \<notin> name ` set (entities graph)"
    by (simp add: createEntities_loaded [OF loaded] split: if_splits)
  then have first: "createEntities [e] s = (Inr [e], ?s')"
    by (simp add: createEntities_loaded [OF loaded])
  have second: "createEntities [e] ?s' = (Inr [], ?s')"
    by (simp add: createEntities_loaded [OF loadGraph_saveGraph])
  from fresh have "\<forall>x\<in>set (entities graph). name x \<noteq> name e"
    by (metis image_eqI)
  then have "filter (\<lambda>x. name x = name e) (entities graph) = []"
    by (simp add: filter_empty_conv)
  then show ?thesis
    using graph first second by (simp add: loadGraph_saveGraph)
qed

theorem createEntities_idempotent_witness:
  "fst (createEntities
      [\<lparr>name = ''C'', entityType = ''Concept'', observations = [], subdomain = None\<rparr>]
      example_store)
     = Inr [\<lparr>name = ''C'', entityType = ''Concept'', observations = [], subdomain = None\<rparr>] \<and>
   (\<exists>graph. fst (loadGraph example_store) = Inr graph \<and>
      createEntities
        [\<lparr>name = ''C'', entityType = ''Concept'', observations = [], subdomain = None\<rparr>]
        (snd (createEntities
          [\<lparr>name = ''C'', entityType = ''Concept'', observations = [], subdomain = None\<rparr>]
          example_store))
      = (Inr [], snd (createEntities
          [\<lparr>name = ''C'', entityType = ''Concept'', observations = [], subdomain = None\<rparr>]
          example_store)))"
proof -
  let ?e = "\<lparr>name = ''C'', entityType = ''Concept'', observations = [], subdomain = None\<rparr>"
  have h: "fst (createEntities [?e] example_store) = Inr [?e]"
    by (simp add: createEntities_loaded [OF load_example_store] example_graph_def)
  from createEntities_idempotent [OF h] h show ?thesis
    by blast
qed

section \<open>Observations without duplicates\<close>

lemma snd_searchNodes: "snd (searchNodes query s) = snd (loadGraph s)"
proof -
  obtain r s1 where ls: "loadGraph s = (r, s1)" by force
  then show ?thesis
    by (cases r) (simp_all add: searchNodes_def Let_def)
qed

lemma snd_openNodes: "snd (openNodes ns s) = snd (loadGraph s)"
proof -
  obtain r s1 where ls: "loadGraph s = (r, s1)" by force
  then show ?thesis
    by (cases r) (simp_all add: openNodes_def Let_def)
qed

lemma set_update_found:
  "set (update_found P f xs) \<subseteq> set xs \<union> f ` {x \<in> set xs. P x}"
  by (induction xs) auto

lemma find_update_found:
  "find P xs = Some x \<Longrightarrow> set (update_found P f xs) \<subseteq> set xs \<union> {f x}"
  by (induction xs) (auto split: if_splits)

lemma distinct_append_new:
  "distinct xs \<Longrightarrow> distinct cs \<Longrightarrow> distinct (xs @ filter (\<lambda>c. c \<notin> set xs) cs)"
  by auto

lemma add_each_distinct:
  assumes "add_each obs g = Inr (results, g')"
    and "observations_distinct g"
    and "\<forall>item\<in>set obs. distinct (contents item)"
  shows "observations_distinct g'"
  using assms
proof (induction obs arbitrary: g results)
  case Nil
  then show ?case by simp
next
  case (Cons item items)
  from Cons.prems(1) obtain entity
    where found: "find (\<lambda>e. name e = entityName item) (entities g) = Some entity"
    by (auto split: option.splits)
  let ?f = "\<lambda>e. e\<lparr>observations := observations e @
            filter (\<lambda>content. content \<notin> set (observations entity)) (contents item)\<rparr>"
  let ?g1 = "g\<lparr>entities := update_found (\<lambda>e. name e = entityName item) ?f (entities g)\<rparr>"
  from found have "entity \<in> set (entities g)"
    by (metis find_Some_iff nth_mem)
  with Cons.prems(2) have "distinct (observations entity)"
    by (simp add: observations_distinct_def)
  moreover from Cons.prems(3) have "distinct (contents item)"
    by simp
  ultimately have "distinct (observations (?f entity))"
    by auto
  with find_update_found [OF found, of ?f] Cons.prems(2)
  have inv1: "observations_distinct ?g1"
    unfolding observations_distinct_def by auto
  from Cons.prems(1) found obtain rest
    where "add_each items ?g1 = Inr (rest, g')"
    by (auto simp: Let_def split: sum.splits)
  from Cons.IH [OF this inv1] Cons.prems(3) show ?case
    by simp
qed

lemma delete_each_distinct:
  "observations_distinct g \<Longrightarrow> observations_distinct (delete_each ds g)"
proof (induction ds arbitrary: g)
  case Nil
  then show ?case by simp
next
  case (Cons d ds)
  let ?f = "\<lambda>e. e\<lparr>observations :=
              filter (\<lambda>ob. ob \<notin> set (deletedObservations d)) (observations e)\<rparr>"
  let ?g1 = "g\<lparr>entities := update_found (\<lambda>e. name e = deletionName d) ?f (entities g)\<rparr>"
  from set_update_found [of "\<lambda>e. name e = deletionName d" ?f "entities g"] Cons.prems
  have "observations_distinct ?g1"
    unfolding observations_distinct_def by auto
  with Cons show ?case
    by (auto split: option.splits)
qed

lemma call_tool_distinct:
  assumes "fst (loadGraph s) = Inr g" and "observations_distinct g"
    and "duplicate_free_input c"
  shows "\<exists>g'. fst (loadGraph (call_tool c s)) = Inr g' \<and> observations_distinct g'"
proof -
  have loaded: "loadGraph s = (Inr g, snd (loadGraph s))"
    using assms(1) by (rule loadGraph_pair)
  have same: "\<exists>g'. fst (loadGraph (snd (loadGraph s))) = Inr g' \<and> observations_distinct g'"
    using loadGraph_again [OF assms(1)] assms(2) by simp
  show ?thesis
  proof (cases c)
    case (CreateEntities es)
    with assms(2,3) same show ?thesis
      by (auto simp: createEntities_loaded [OF loaded] loadGraph_saveGraph
            observations_distinct_def)
  next
    case (CreateRelations rs)
    with assms(2) show ?thesis
      by (simp add: createRelations_loaded [OF loaded] loadGraph_saveGraph
            observations_distinct_def)
  next
    case (AddObservations obs)
    show ?thesis
    proof (cases "add_each obs g")
      case (Inl err)
      with AddObservations same show ?thesis
        by (simp add: addObservations_loaded [OF loaded])
    next
      case (Inr p)
      obtain results g' where p: "p = (results, g')" by force
      with Inr assms(2,3) AddObservations have "observations_distinct g'"
        using add_each_distinct by auto
      with Inr p AddObservations show ?thesis
        by (simp add: addObservations_loaded [OF loaded] loadGraph_saveGraph)
    qed
  next
    case (DeleteEntities ns)
    with assms(2) show ?thesis
      by (simp add: deleteEntities_loaded [OF loaded] loadGraph_saveGraph
            observations_distinct_def)
  next
    case (DeleteObservations ds)
    with assms(2) show ?thesis
      by (simp add: deleteObservations_loaded [OF loaded] loadGraph_saveGraph
            delete_each_distinct)
  next
    case (DeleteRelations rs)
    with assms(2) show ?thesis
      by (simp add: deleteRelations_loaded [OF loaded] loadGraph_saveGraph
            observations_distinct_def)
  next
    case ReadGraph
    with same show ?thesis by (simp add: readGraph_def)
  next
    case (SearchNodes query)
    with same show ?thesis by (simp add: snd_searchNodes)
  next
    case (OpenNodes ns)
    with same show ?thesis by (simp add: snd_openNodes)
  qed
qed

text \<open>
  C7, as the specification states it: after every call, from every state the calls reach,
  no entity holds an observation twice. Starting from the store that does not exist yet,
  creating A and then adding the contents x, x to it leaves A with x twice; creating B with
  the observations y, y stores them as given.
\<close>

theorem observations_duplicated_counterexample:
  "fst (loadGraph (run_calls
      [CreateEntities
         [\<lparr>name = ''A'', entityType = ''T'', observations = [], subdomain = None\<rparr>],
       AddObservations [\<lparr>entityName = ''A'', contents = [''x'', ''x'']\<rparr>]]
      initial_store))
   = Inr \<lparr>entities =
            [\<lparr>name = ''A'', entityType = ''T'', observations = [''x'', ''x''],
              subdomain = None\<rparr>],
          relations = []\<rparr> \<and>
   fst (loadGraph (run_calls
      [CreateEntities
         [\<lparr>name = ''B'', entityType = ''T'', observations = [''y'', ''y''],
           subdomain = None\<rparr>]]
      initial_store))
   = Inr \<lparr>entities =
            [\<lparr>name = ''B'', entityType = ''T'', observations = [''y'', ''y''],
              subdomain = None\<rparr>],
          relations = []\<rparr>"
  by code_simp

text \<open>
  C7, amended. From a store whose graph has no entity with an observation twice, any
  sequence of calls whose inputs hold no observation twice (the observations of each
  entity given to \<^verbatim>\<open>createEntities\<close>, which are stored as given, and each list of
  contents given to \<^verbatim>\<open>addObservations\<close>) leaves a store whose graph has no entity
  with an observation twice.
\<close>

theorem observations_stay_distinct:
  assumes "fst (loadGraph s) = Inr graph"
    and "\<forall>e\<in>set (entities graph). distinct (observations e)"
    and "\<forall>c\<in>set calls. duplicate_free_input c"
  shows "\<exists>graph'. fst (loadGraph (run_calls calls s)) = Inr graph' \<and>
           (\<forall>e\<in>set (entities graph'). distinct (observations e))"
  using assms
proof (induction calls arbitrary: s graph)
  case Nil
  then show ?case by simp
next
  case (Cons c cs)
  from Cons.prems have "\<exists>g'. fst (loadGraph (call_tool c s)) = Inr g' \<and> observations_distinct g'"
    by (intro call_tool_distinct [of s graph]) (simp_all add: observations_distinct_def)
  then obtain g' where "fst (loadGraph (call_tool c s)) = Inr g'"
    and "\<forall>e\<in>set (entities g'). distinct (observations e)"
    by (auto simp: observations_distinct_def)
  from Cons.IH [OF this] Cons.prems(3) show ?case
    by simp
qed

theorem observations_stay_distinct_witness:
  "fst (loadGraph example_store) = Inr example_graph \<and>
   fst (loadGraph (run_calls
      [CreateEntities
         [\<lparr>name = ''C'', entityType = ''T'', observations = [''a'', ''b''],
           subdomain = None\<rparr>],
       AddObservations [\<lparr>entityName = ''A'', contents = [''first'', ''more'']\<rparr>],
       DeleteObservations [\<lparr>deletionName = ''C'', deletedObservations = [''a'']\<rparr>]]
      example_store))
   = Inr \<lparr>entities =
            [\<lparr>name = ''A'', entityType = ''Concept'', observations = [''first'', ''more''],
              subdomain = None\<rparr>,
             \<lparr>name = ''B'', entityType = ''Component'', observations = [''second''],
              subdomain = Some ''core''\<rparr>,
             \<lparr>name = ''C'', entityType = ''T'', observations = [''b''], subdomain = None\<rparr>],
          relations = [\<lparr>rel_from = ''A'', rel_to = ''B'', relationType = ''uses''\<rparr>]\<rparr> \<and>
   (\<exists>graph'. fst (loadGraph (run_calls
      [CreateEntities
         [\<lparr>name = ''C'', entityType = ''T'', observations = [''a'', ''b''],
           subdomain = None\<rparr>],
       AddObservations [\<lparr>entityName = ''A'', contents = [''first'', ''more'']\<rparr>],
       DeleteObservations [\<lparr>deletionName = ''C'', deletedObservations = [''a'']\<rparr>]]
      example_store)) = Inr graph' \<and>
      (\<forall>e\<in>set (entities graph'). distinct (observations e)))"
proof -
  let ?calls = "[CreateEntities
         [\<lparr>name = ''C'', entityType = ''T'', observations = [''a'', ''b''],
           subdomain = None\<rparr>],
       AddObservations [\<lparr>entityName = ''A'', contents = [''first'', ''more'']\<rparr>],
       DeleteObservations [\<lparr>deletionName = ''C'', deletedObservations = [''a'']\<rparr>]]"
  have h1: "fst (loadGraph example_store) = Inr example_graph"
    by (simp add: load_example_store)
  have h2: "\<forall>e\<in>set (entities example_graph). distinct (observations e)"
    by (simp add: example_graph_def)
  have h3: "\<forall>c\<in>set ?calls. duplicate_free_input c"
    by simp
  have run: "fst (loadGraph (run_calls ?calls example_store))
   = Inr \<lparr>entities =
            [\<lparr>name = ''A'', entityType = ''Concept'', observations = [''first'', ''more''],
              subdomain = None\<rparr>,
             \<lparr>name = ''B'', entityType = ''Component'', observations = [''second''],
              subdomain = Some ''core''\<rparr>,
             \<lparr>name = ''C'', entityType = ''T'', observations = [''b''], subdomain = None\<rparr>],
          relations = [\<lparr>rel_from = ''A'', rel_to = ''B'', relationType = ''uses''\<rparr>]\<rparr>"
    by code_simp
  from observations_stay_distinct [OF h1 h2 h3] h1 run show ?thesis
    by blast
qed

section \<open>Search\<close>

subsection \<open>Keywords are the tokens of the lower-cased query\<close>

lemma str_includes_sublist: "str_includes s k \<longleftrightarrow> sublist k s"
  by (induction s) (simp_all add: sublist_Cons_right)

lemma split_regex_unfold:
  "split_regex sep s =
     takeWhile (\<lambda>c. \<not> sep c) s #
       (case dropWhile (\<lambda>c. \<not> sep c) s of
          [] \<Rightarrow> []
        | d # ds \<Rightarrow> split_regex sep (dropWhile sep ds))"
  by (induction s) (auto split: list.splits)

lemma spec_token_Nil: "\<not> spec_token sep [] t"
  by (auto simp: spec_token_def)

lemma spec_token_skip:
  assumes "sep c"
  shows "spec_token sep (c # cs) t \<longleftrightarrow> spec_token sep cs t"
proof
  assume "spec_token sep (c # cs) t"
  then obtain pre post where t: "t \<noteq> []" "\<forall>c\<in>set t. \<not> sep c"
    and s: "c # cs = pre @ t @ post"
    and b: "pre = [] \<or> sep (last pre)" "post = [] \<or> sep (hd post)"
    unfolding spec_token_def by blast
  from s t assms have "pre \<noteq> []"
    by (cases t) auto
  then obtain pre' where pre: "pre = c # pre'"
    using s by (cases pre) auto
  with s have "cs = pre' @ t @ post" by simp
  moreover from b(1) pre have "pre' = [] \<or> sep (last pre')"
    by (auto split: if_splits)
  ultimately show "spec_token sep cs t"
    unfolding spec_token_def using t b(2) by blast
next
  assume "spec_token sep cs t"
  then obtain pre post where t: "t \<noteq> []" "\<forall>c\<in>set t. \<not> sep c"
    and s: "cs = pre @ t @ post"
    and b: "pre = [] \<or> sep (last pre)" "post = [] \<or> sep (hd post)"
    unfolding spec_token_def by blast
  from s have "c # cs = (c # pre) @ t @ post" by simp
  moreover from b(1) assms have "sep (last (c # pre))" by auto
  ultimately show "spec_token sep (c # cs) t"
    unfolding spec_token_def using t b(2) by blast
qed

lemma spec_token_dropWhile: "spec_token sep (dropWhile sep s) t \<longleftrightarrow> spec_token sep s t"
  by (induction s) (simp_all add: spec_token_skip)

lemma spec_token_first:
  assumes u: "\<forall>c\<in>set u. \<not> sep c" and rest: "rest = [] \<or> sep (hd rest)"
  shows "spec_token sep (u @ rest) t \<longleftrightarrow> (t = u \<and> u \<noteq> []) \<or> spec_token sep rest t"
proof
  assume "spec_token sep (u @ rest) t"
  then obtain pre post where t: "t \<noteq> []" "\<forall>c\<in>set t. \<not> sep c"
    and s: "u @ rest = pre @ t @ post"
    and b: "pre = [] \<or> sep (last pre)" "post = [] \<or> sep (hd post)"
    unfolding spec_token_def by blast
  from s consider us where "u = pre @ us" "us @ rest = t @ post"
    | us where "u @ us = pre" "rest = us @ t @ post"
    by (auto simp: append_eq_append_conv2)
  then show "(t = u \<and> u \<noteq> []) \<or> spec_token sep rest t"
  proof cases
    case 1
    have "pre = []"
    proof (rule ccontr)
      assume "pre \<noteq> []"
      with b(1) have "sep (last pre)" by simp
      moreover from \<open>pre \<noteq> []\<close> 1(1) have "last pre \<in> set u" by simp
      ultimately show False using u by blast
    qed
    with 1 have eq: "u @ rest = t @ post" by simp
    then consider vs where "u = t @ vs" "vs @ rest = post"
      | vs where "u @ vs = t" "rest = vs @ post"
      by (auto simp: append_eq_append_conv2)
    then have "t = u"
    proof cases
      case 1
      show ?thesis
      proof (cases vs)
        case Nil
        with 1 show ?thesis by simp
      next
        case (Cons v vs')
        with 1 have "hd post = v" "post \<noteq> []" "v \<in> set u" by auto
        with b(2) u show ?thesis by blast
      qed
    next
      case 2
      show ?thesis
      proof (cases vs)
        case Nil
        with 2 show ?thesis by simp
      next
        case (Cons v vs')
        with 2 have "hd rest = v" "rest \<noteq> []" "v \<in> set t" by auto
        with rest t(2) show ?thesis by blast
      qed
    qed
    with t(1) show ?thesis by simp
  next
    case 2
    have "us = [] \<or> sep (last us)"
    proof (cases us)
      case Nil
      then show ?thesis by simp
    next
      case (Cons a as)
      with 2(1) have "pre \<noteq> []" "last pre = last us" by auto
      with b(1) show ?thesis by simp
    qed
    with 2(2) t b(2) have "spec_token sep rest t"
      unfolding spec_token_def by blast
    then show ?thesis ..
  qed
next
  assume "(t = u \<and> u \<noteq> []) \<or> spec_token sep rest t"
  then show "spec_token sep (u @ rest) t"
  proof
    assume "t = u \<and> u \<noteq> []"
    then have "u @ rest = [] @ t @ rest" "t \<noteq> []" by simp_all
    with u rest \<open>t = u \<and> u \<noteq> []\<close> show ?thesis
      unfolding spec_token_def by blast
  next
    assume "spec_token sep rest t"
    then obtain pre post where t: "t \<noteq> []" "\<forall>c\<in>set t. \<not> sep c"
      and s: "rest = pre @ t @ post"
      and b: "pre = [] \<or> sep (last pre)" "post = [] \<or> sep (hd post)"
      unfolding spec_token_def by blast
    have "pre \<noteq> []"
    proof
      assume "pre = []"
      with s t(1) have "rest \<noteq> []" "hd rest = hd t" "hd t \<in> set t" by auto
      with rest t(2) show False by auto
    qed
    with b(1) have "sep (last (u @ pre))" by simp
    moreover from s have "u @ rest = (u @ pre) @ t @ post" by simp
    ultimately show ?thesis
      unfolding spec_token_def using t b(2) by blast
  qed
qed


lemma split_regex_tokens:
  "set (filter (\<lambda>k. length k > 0) (split_regex sep s)) = {t. spec_token sep s t}"
proof (induction s rule: length_induct)
  case (1 s)
  let ?u = "takeWhile (\<lambda>c. \<not> sep c) s"
  let ?rest = "dropWhile (\<lambda>c. \<not> sep c) s"
  have s: "s = ?u @ ?rest" by simp
  have u: "\<forall>c\<in>set ?u. \<not> sep c"
    by (auto dest: set_takeWhileD)
  have rest: "?rest = [] \<or> sep (hd ?rest)"
    using hd_dropWhile [of "\<lambda>c. \<not> sep c" s] by auto
  have first: "spec_token sep s t \<longleftrightarrow> (t = ?u \<and> ?u \<noteq> []) \<or> spec_token sep ?rest t" for t
    using spec_token_first [OF u rest, of t] by simp
  show ?case
  proof (cases ?rest)
    case Nil
    have "split_regex sep s = ?u # (case ?rest of [] \<Rightarrow> []
        | d # ds \<Rightarrow> split_regex sep (dropWhile sep ds))"
      by (rule split_regex_unfold)
    then have "split_regex sep s = [?u]"
      by (simp only: Nil list.case)
    moreover have "spec_token sep s t \<longleftrightarrow> t = ?u \<and> ?u \<noteq> []" for t
      using first [of t] by (simp only: Nil spec_token_Nil simp_thms)
    ultimately show ?thesis
      by auto
  next
    case (Cons d ds)
    with rest have d: "sep d" by simp
    have "length ?rest \<le> length s"
      by (rule length_dropWhile_le)
    with Cons have "length (dropWhile sep ds) < length s"
      using length_dropWhile_le [of sep ds] by simp
    with 1 have IH: "set (filter (\<lambda>k. length k > 0) (split_regex sep (dropWhile sep ds)))
        = {t. spec_token sep (dropWhile sep ds) t}"
      by blast
    have "spec_token sep ?rest t \<longleftrightarrow> spec_token sep (dropWhile sep ds) t" for t
      using Cons d by (simp add: spec_token_skip spec_token_dropWhile)
    moreover have "split_regex sep s = ?u # (case ?rest of [] \<Rightarrow> []
        | d # ds \<Rightarrow> split_regex sep (dropWhile sep ds))"
      by (rule split_regex_unfold)
    then have "split_regex sep s = ?u # split_regex sep (dropWhile sep ds)"
      by (simp only: Cons list.case)
    ultimately show ?thesis
      using first IH by auto
  qed
qed

lemma char_eq_nat: "c = d \<longleftrightarrow> (of_char c :: nat) = of_char d"
  by simp

lemma isSeparator_nat:
  "isSeparator c \<longleftrightarrow> (of_char c :: nat) \<in> {9, 10, 11, 12, 13, 32, 160, 44, 38, 43}"
  by (auto simp: isSeparator_def isWhiteSpace_def char_eq_nat [of c])

lemma isSeparator_toLowerCase_unit: "isSeparator (toLowerCase_unit c) = isSeparator c"
proof -
  have "(of_char c :: nat) < 256" by simp
  then show ?thesis
    by (auto simp: isSeparator_nat toLowerCase_unit_def Let_def)
qed



lemma keywords_of_tokens:
  "set (keywords_of query) = {t. spec_token isSeparator (toLowerCase query) t}"
  by (simp only: keywords_of_def Let_def split_regex_tokens)

lemma hasMatch_iff:
  "hasMatch keywords e \<longleftrightarrow>
     (\<exists>t\<in>set keywords.
        sublist t (toLowerCase (name e)) \<or> sublist t (toLowerCase (entityType e)) \<or>
        sublist t (case subdomain e of None \<Rightarrow> [] | Some d \<Rightarrow> toLowerCase d) \<or>
        (\<exists>ob\<in>set (observations e). sublist t (toLowerCase ob)))"
  by (simp add: hasMatch_def Let_def list_ex_iff str_includes_sublist)

lemma induced_relations_eq:
  "induced_relations es rs =
     filter (\<lambda>r. rel_from r \<in> name ` set es \<and> rel_to r \<in> name ` set es) rs"
  by (simp add: induced_relations_def)

lemma searchNodes_loaded:
  assumes "loadGraph s = (Inr g, s1)"
  shows "searchNodes query s =
     (Inr (if keywords_of query = [] then \<lparr>entities = [], relations = []\<rparr>
           else \<lparr>entities = filter (hasMatch (keywords_of query)) (entities g),
                 relations = induced_relations (filter (hasMatch (keywords_of query)) (entities g))
                               (relations g)\<rparr>), s1)"
  using assms by (simp add: searchNodes_def Let_def)

text \<open>
  C1. When the store holds a graph, \<^verbatim>\<open>searchNodes\<close> succeeds and leaves the store as
  the load left it. With the tokens of the lower-cased query (split on runs of white space,
  comma, ampersand and plus, empty pieces dropped): when there is no token the result has
  no entity and no relation; otherwise its entities are the entities of the graph, in
  order, for which some token occurs in the lower-cased name, the lower-cased entityType,
  the lower-cased subdomain (the empty string when absent) or some lower-cased
  observation, and its relations are the relations of the graph whose \<^verbatim>\<open>from\<close> and
  \<^verbatim>\<open>to\<close> both name an entity of the result.
\<close>

theorem searchNodes_spec:
  assumes "fst (loadGraph s) = Inr graph"
  shows "\<exists>result. searchNodes query s = (Inr result, snd (loadGraph s)) \<and>
     (let tokens = {t. spec_token isSeparator (toLowerCase query) t} in
      if tokens = {} then result = \<lparr>entities = [], relations = []\<rparr>
      else
        entities result =
          filter (\<lambda>e. \<exists>t\<in>tokens.
                    sublist t (toLowerCase (name e)) \<or>
                    sublist t (toLowerCase (entityType e)) \<or>
                    sublist t (case subdomain e of None \<Rightarrow> [] | Some d \<Rightarrow> toLowerCase d) \<or>
                    (\<exists>ob\<in>set (observations e). sublist t (toLowerCase ob)))
                 (entities graph) \<and>
        relations result =
          filter (\<lambda>r. rel_from r \<in> name ` set (entities result) \<and>
                      rel_to r \<in> name ` set (entities result))
                 (relations graph))"
proof -
  have loaded: "loadGraph s = (Inr graph, snd (loadGraph s))"
    using assms by (rule loadGraph_pair)
  have empty: "keywords_of query = [] \<longleftrightarrow> {t. spec_token isSeparator (toLowerCase query) t} = {}"
    using keywords_of_tokens [of query] by (metis set_empty)
  have match: "hasMatch (keywords_of query) = (\<lambda>e. \<exists>t\<in>{t. spec_token isSeparator (toLowerCase query) t}.
                    sublist t (toLowerCase (name e)) \<or>
                    sublist t (toLowerCase (entityType e)) \<or>
                    sublist t (case subdomain e of None \<Rightarrow> [] | Some d \<Rightarrow> toLowerCase d) \<or>
                    (\<exists>ob\<in>set (observations e). sublist t (toLowerCase ob)))"
    by (rule ext) (simp only: hasMatch_iff keywords_of_tokens)
  show ?thesis
  proof (cases "keywords_of query = []")
    case True
    with empty show ?thesis
      by (simp add: searchNodes_loaded [OF loaded])
  next
    case False
    with empty have "{t. spec_token isSeparator (toLowerCase query) t} \<noteq> {}"
      by simp
    with False show ?thesis
      by (simp add: searchNodes_loaded [OF loaded] Let_def induced_relations_eq match)
  qed
qed

theorem searchNodes_spec_witness:
  "fst (loadGraph example_store) = Inr example_graph \<and>
   searchNodes ''CORE + zzz'' example_store
     = (Inr \<lparr>entities =
               [\<lparr>name = ''B'', entityType = ''Component'', observations = [''second''],
                 subdomain = Some ''core''\<rparr>],
             relations = []\<rparr>, example_store) \<and>
   searchNodes ''Core, FIRST'' example_store = (Inr example_graph, example_store) \<and>
   searchNodes '' ,+& '' example_store
     = (Inr \<lparr>entities = [], relations = []\<rparr>, example_store) \<and>
   (\<exists>result. searchNodes ''CORE + zzz'' example_store
        = (Inr result, snd (loadGraph example_store)) \<and>
     (let tokens = {t. spec_token isSeparator (toLowerCase ''CORE + zzz'') t} in
      if tokens = {} then result = \<lparr>entities = [], relations = []\<rparr>
      else
        entities result =
          filter (\<lambda>e. \<exists>t\<in>tokens.
                    sublist t (toLowerCase (name e)) \<or>
                    sublist t (toLowerCase (entityType e)) \<or>
                    sublist t (case subdomain e of None \<Rightarrow> [] | Some d \<Rightarrow> toLowerCase d) \<or>
                    (\<exists>ob\<in>set (observations e). sublist t (toLowerCase ob)))
                 (entities example_graph) \<and>
        relations result =
          filter (\<lambda>r. rel_from r \<in> name ` set (entities result) \<and>
                      rel_to r \<in> name ` set (entities result))
                 (relations example_graph)))"
proof -
  have h: "fst (loadGraph example_store) = Inr example_graph"
    by (simp add: load_example_store)
  have one: "searchNodes ''CORE + zzz'' example_store
     = (Inr \<lparr>entities =
               [\<lparr>name = ''B'', entityType = ''Component'', observations = [''second''],
                 subdomain = Some ''core''\<rparr>],
             relations = []\<rparr>, example_store)"
    by code_simp
  have both: "searchNodes ''Core, FIRST'' example_store = (Inr example_graph, example_store)"
    by code_simp
  have none: "searchNodes '' ,+& '' example_store
     = (Inr \<lparr>entities = [], relations = []\<rparr>, example_store)"
    by code_simp
  from searchNodes_spec [OF h, of "''CORE + zzz''"] h one both none show ?thesis
    by blast
qed

section \<open>Names are compared as they are\<close>

lemma keywords_of_single:
  assumes "n \<noteq> []" and "\<forall>c\<in>set n. \<not> isSeparator c"
  shows "keywords_of n = [toLowerCase n]"
proof -
  let ?s = "toLowerCase n"
  from assms(2) have none: "\<forall>c\<in>set ?s. \<not> isSeparator c"
    by (simp add: toLowerCase_def isSeparator_toLowerCase_unit)
  then have tw: "takeWhile (\<lambda>c. \<not> isSeparator c) ?s = ?s"
    and dw: "dropWhile (\<lambda>c. \<not> isSeparator c) ?s = []"
    by (simp_all add: takeWhile_eq_all_conv)
  have "split_regex isSeparator ?s =
      takeWhile (\<lambda>c. \<not> isSeparator c) ?s #
       (case dropWhile (\<lambda>c. \<not> isSeparator c) ?s of [] \<Rightarrow> []
        | d # ds \<Rightarrow> split_regex isSeparator (dropWhile isSeparator ds))"
    by (rule split_regex_unfold)
  then have "split_regex isSeparator ?s = [?s]"
    by (simp only: tw dw list.case)
  moreover from assms(1) have "?s \<noteq> []"
    by (simp add: toLowerCase_def)
  ultimately show ?thesis
    by (simp add: keywords_of_def)
qed

lemma openNodes_loaded:
  assumes "loadGraph s = (Inr g, s1)"
  shows "openNodes ns s =
     (Inr \<lparr>entities = filter (\<lambda>e. name e \<in> set ns) (entities g),
           relations = induced_relations (filter (\<lambda>e. name e \<in> set ns) (entities g))
                         (relations g)\<rparr>, s1)"
  using assms by (simp add: openNodes_def Let_def)

lemma find_first:
  "\<forall>e\<in>set pre. \<not> P e \<Longrightarrow> P x \<Longrightarrow> find P (pre @ x # post) = Some x"
  by (induction pre) auto

lemma update_found_first:
  "\<forall>e\<in>set pre. \<not> P e \<Longrightarrow> P x \<Longrightarrow> update_found P f (pre @ x # post) = pre @ f x # post"
  by (induction pre) auto

lemma addObservations_one_found:
  assumes "loadGraph s = (Inr g, s1)"
    and "entities g = pre @ x # post" and "name x = m" and "\<forall>e\<in>set pre. name e \<noteq> m"
  shows "addObservations [\<lparr>entityName = m, contents = cs\<rparr>] s =
     (Inr [\<lparr>resultName = m,
            addedObservations = filter (\<lambda>c. c \<notin> set (observations x)) cs\<rparr>],
      saveGraph (g\<lparr>entities := pre @
          x\<lparr>observations := observations x @ filter (\<lambda>c. c \<notin> set (observations x)) cs\<rparr>
          # post\<rparr>) s1)"
proof -
  have f: "find (\<lambda>e. name e = m) (entities g) = Some x"
    using assms(2-4) by (simp add: find_first)
  have u: "update_found (\<lambda>e. name e = m) f (entities g) = pre @ f x # post" for f
    using assms(2-4) by (simp add: update_found_first)
  show ?thesis
    by (simp add: addObservations_loaded [OF assms(1)] f u Let_def)
qed

text \<open>
  C10. Let the store hold a graph with an entity x named m, and let n be another name
  with the same lower-cased form. The operations outside the search take n and m for
  two names:
  \<^item> when no entity is named n, creating an entity named n returns it and stores it after
    the others, while creating an entity named m returns nothing and leaves the graph;
  \<^item> when no entity is named n, adding observations to n fails with the not-found error
    and leaves the graph, while adding to m appends the new strings to the first entity
    named m and reports them;
  \<^item> deleting n leaves exactly the entities not named n and the relations with no end n,
    x among them, while deleting m leaves exactly the entities not named m and the
    relations with no end m, x not among them;
  \<^item> opening n returns exactly the entities named n, x not among them, and opening m
    exactly those named m, x among them, each with the relations between them.

  The search does not tell n from m: searching for n (a single keyword) returns x.
\<close>

theorem names_compared_exactly:
  assumes "fst (loadGraph s) = Inr graph"
    and "n \<noteq> m" and "toLowerCase n = toLowerCase m"
    and "x \<in> set (entities graph)" and "name x = m"
  shows
   "(n \<notin> name ` set (entities graph) \<and> name e = n \<longrightarrow>
       fst (createEntities [e] s) = Inr [e] \<and>
       fst (loadGraph (snd (createEntities [e] s)))
         = Inr (graph\<lparr>entities := entities graph @ [e]\<rparr>)) \<and>
    (name e' = m \<longrightarrow>
       fst (createEntities [e'] s) = Inr [] \<and>
       fst (loadGraph (snd (createEntities [e'] s))) = Inr graph) \<and>
    (n \<notin> name ` set (entities graph) \<longrightarrow>
       fst (addObservations [\<lparr>entityName = n, contents = cs\<rparr>] s) = Inl (NotFound n) \<and>
       fst (loadGraph (snd (addObservations [\<lparr>entityName = n, contents = cs\<rparr>] s)))
         = Inr graph) \<and>
    (\<forall>pre y post.
       entities graph = pre @ y # post \<and> name y = m \<and> (\<forall>e\<in>set pre. name e \<noteq> m) \<longrightarrow>
       fst (addObservations [\<lparr>entityName = m, contents = cs\<rparr>] s)
         = Inr [\<lparr>resultName = m,
                 addedObservations = filter (\<lambda>c. c \<notin> set (observations y)) cs\<rparr>] \<and>
       fst (loadGraph (snd (addObservations [\<lparr>entityName = m, contents = cs\<rparr>] s)))
         = Inr (graph\<lparr>entities := pre @
             y\<lparr>observations := observations y @
                  filter (\<lambda>c. c \<notin> set (observations y)) cs\<rparr> # post\<rparr>)) \<and>
    fst (deleteEntities [n] s) = Inr () \<and>
    fst (loadGraph (snd (deleteEntities [n] s)))
      = Inr \<lparr>entities = filter (\<lambda>e. name e \<noteq> n) (entities graph),
             relations = filter (\<lambda>r. rel_from r \<noteq> n \<and> rel_to r \<noteq> n) (relations graph)\<rparr> \<and>
    x \<in> set (filter (\<lambda>e. name e \<noteq> n) (entities graph)) \<and>
    fst (deleteEntities [m] s) = Inr () \<and>
    fst (loadGraph (snd (deleteEntities [m] s)))
      = Inr \<lparr>entities = filter (\<lambda>e. name e \<noteq> m) (entities graph),
             relations = filter (\<lambda>r. rel_from r \<noteq> m \<and> rel_to r \<noteq> m) (relations graph)\<rparr> \<and>
    x \<notin> set (filter (\<lambda>e. name e \<noteq> m) (entities graph)) \<and>
    fst (openNodes [n] s)
      = Inr \<lparr>entities = filter (\<lambda>e. name e = n) (entities graph),
             relations = filter (\<lambda>r. rel_from r \<in> name ` set (filter (\<lambda>e. name e = n) (entities graph)) \<and>
                                   rel_to r \<in> name ` set (filter (\<lambda>e. name e = n) (entities graph)))
                                (relations graph)\<rparr> \<and>
    x \<notin> set (filter (\<lambda>e. name e = n) (entities graph)) \<and>
    fst (openNodes [m] s)
      = Inr \<lparr>entities = filter (\<lambda>e. name e = m) (entities graph),
             relations = filter (\<lambda>r. rel_from r \<in> name ` set (filter (\<lambda>e. name e = m) (entities graph)) \<and>
                                   rel_to r \<in> name ` set (filter (\<lambda>e. name e = m) (entities graph)))
                                (relations graph)\<rparr> \<and>
    x \<in> set (filter (\<lambda>e. name e = m) (entities graph)) \<and>
    (n \<noteq> [] \<and> (\<forall>c\<in>set n. \<not> isSeparator c) \<longrightarrow>
       (\<exists>result. fst (searchNodes n s) = Inr result \<and> x \<in> set (entities result)))"
proof -
  have loaded: "loadGraph s = (Inr graph, snd (loadGraph s))"
    using assms(1) by (rule loadGraph_pair)
  have again: "fst (loadGraph (snd (loadGraph s))) = Inr graph"
    using loadGraph_again [OF assms(1)] by simp
  have x_in: "x \<in> set (entities graph)"
    by (rule assms(4))
  have m_in: "m \<in> name ` set (entities graph)"
    using x_in assms(5) by (metis image_eqI)
  have create_n: "fst (createEntities [e] s) = Inr [e] \<and>
       fst (loadGraph (snd (createEntities [e] s)))
         = Inr (graph\<lparr>entities := entities graph @ [e]\<rparr>)"
    if "n \<notin> name ` set (entities graph)" "name e = n"
    using that by (simp add: createEntities_loaded [OF loaded] loadGraph_saveGraph)
  have create_m: "fst (createEntities [e'] s) = Inr [] \<and>
       fst (loadGraph (snd (createEntities [e'] s))) = Inr graph"
    if "name e' = m"
    using that m_in again by (simp add: createEntities_loaded [OF loaded])
  have add_n: "fst (addObservations [\<lparr>entityName = n, contents = cs\<rparr>] s) = Inl (NotFound n) \<and>
       fst (loadGraph (snd (addObservations [\<lparr>entityName = n, contents = cs\<rparr>] s)))
         = Inr graph"
    if "n \<notin> name ` set (entities graph)"
    using that again
    by (simp add: addObservations_loaded [OF loaded] find_name_None [THEN iffD2])
  have add_m: "fst (addObservations [\<lparr>entityName = m, contents = cs\<rparr>] s)
         = Inr [\<lparr>resultName = m,
                 addedObservations = filter (\<lambda>c. c \<notin> set (observations y)) cs\<rparr>] \<and>
       fst (loadGraph (snd (addObservations [\<lparr>entityName = m, contents = cs\<rparr>] s)))
         = Inr (graph\<lparr>entities := pre @
             y\<lparr>observations := observations y @
                  filter (\<lambda>c. c \<notin> set (observations y)) cs\<rparr> # post\<rparr>)"
    if "entities graph = pre @ y # post" "name y = m" "\<forall>e\<in>set pre. name e \<noteq> m"
    for pre y post
    by (simp add: addObservations_one_found [OF loaded that] loadGraph_saveGraph)
  have del: "fst (deleteEntities [k] s) = Inr () \<and>
    fst (loadGraph (snd (deleteEntities [k] s)))
      = Inr \<lparr>entities = filter (\<lambda>e. name e \<noteq> k) (entities graph),
             relations = filter (\<lambda>r. rel_from r \<noteq> k \<and> rel_to r \<noteq> k) (relations graph)\<rparr>" for k
    by (simp add: deleteEntities_loaded [OF loaded] loadGraph_saveGraph)
  have opn: "fst (openNodes [k] s)
      = Inr \<lparr>entities = filter (\<lambda>e. name e = k) (entities graph),
             relations = filter (\<lambda>r. rel_from r \<in> name ` set (filter (\<lambda>e. name e = k) (entities graph)) \<and>
                                   rel_to r \<in> name ` set (filter (\<lambda>e. name e = k) (entities graph)))
                                (relations graph)\<rparr>" for k
    by (simp add: openNodes_loaded [OF loaded] induced_relations_eq)
  have kept: "x \<in> set (filter (\<lambda>e. name e \<noteq> n) (entities graph))"
    and gone: "x \<notin> set (filter (\<lambda>e. name e \<noteq> m) (entities graph))"
    and not_opened: "x \<notin> set (filter (\<lambda>e. name e = n) (entities graph))"
    and opened: "x \<in> set (filter (\<lambda>e. name e = m) (entities graph))"
    using x_in assms(2,5) by simp_all
  have search: "\<exists>result. fst (searchNodes n s) = Inr result \<and> x \<in> set (entities result)"
    if "n \<noteq> []" "\<forall>c\<in>set n. \<not> isSeparator c"
  proof -
    have k: "keywords_of n = [toLowerCase n]"
      using that by (rule keywords_of_single)
    have "hasMatch [toLowerCase n] x"
      using assms(3,5) by (simp add: hasMatch_iff)
    with k x_in show ?thesis
      by (simp add: searchNodes_loaded [OF loaded])
  qed
  show ?thesis
    using create_n create_m add_n add_m del [of n] del [of m] opn [of n] opn [of m]
      kept gone not_opened opened search
    by (intro conjI impI allI) blast+
qed

theorem names_compared_exactly_witness:
  "fst (loadGraph example_store) = Inr example_graph \<and>
   ''a'' \<noteq> ''A'' \<and> toLowerCase ''a'' = toLowerCase ''A'' \<and>
   \<lparr>name = ''A'', entityType = ''Concept'', observations = [''first''], subdomain = None\<rparr>
     \<in> set (entities example_graph) \<and>
   ''a'' \<notin> name ` set (entities example_graph) \<and>
   fst (createEntities
      [\<lparr>name = ''a'', entityType = ''T'', observations = [], subdomain = None\<rparr>] example_store)
     = Inr [\<lparr>name = ''a'', entityType = ''T'', observations = [], subdomain = None\<rparr>] \<and>
   fst (loadGraph (snd (createEntities
      [\<lparr>name = ''a'', entityType = ''T'', observations = [], subdomain = None\<rparr>] example_store)))
     = Inr (example_graph\<lparr>entities := entities example_graph @
          [\<lparr>name = ''a'', entityType = ''T'', observations = [], subdomain = None\<rparr>]\<rparr>) \<and>
   fst (createEntities
      [\<lparr>name = ''A'', entityType = ''Other'', observations = [''x''], subdomain = None\<rparr>]
      example_store) = Inr [] \<and>
   fst (loadGraph (snd (createEntities
      [\<lparr>name = ''A'', entityType = ''Other'', observations = [''x''], subdomain = None\<rparr>]
      example_store))) = Inr example_graph \<and>
   fst (addObservations [\<lparr>entityName = ''a'', contents = [''first'', ''more'']\<rparr>] example_store)
     = Inl (NotFound ''a'') \<and>
   fst (addObservations [\<lparr>entityName = ''A'', contents = [''first'', ''more'']\<rparr>] example_store)
     = Inr [\<lparr>resultName = ''A'', addedObservations = [''more'']\<rparr>] \<and>
   fst (loadGraph (snd (addObservations
      [\<lparr>entityName = ''A'', contents = [''first'', ''more'']\<rparr>] example_store)))
     = Inr (example_graph\<lparr>entities :=
          [\<lparr>name = ''A'', entityType = ''Concept'', observations = [''first'', ''more''],
            subdomain = None\<rparr>,
           \<lparr>name = ''B'', entityType = ''Component'', observations = [''second''],
            subdomain = Some ''core''\<rparr>]\<rparr>) \<and>
   fst (loadGraph (snd (deleteEntities [''a''] example_store))) = Inr example_graph \<and>
   fst (loadGraph (snd (deleteEntities [''A''] example_store)))
     = Inr \<lparr>entities =
              [\<lparr>name = ''B'', entityType = ''Component'', observations = [''second''],
                subdomain = Some ''core''\<rparr>],
            relations = []\<rparr> \<and>
   fst (openNodes [''a''] example_store) = Inr \<lparr>entities = [], relations = []\<rparr> \<and>
   fst (openNodes [''A''] example_store)
     = Inr \<lparr>entities =
              [\<lparr>name = ''A'', entityType = ''Concept'', observations = [''first''],
                subdomain = None\<rparr>],
            relations = []\<rparr> \<and>
   (\<exists>result. fst (searchNodes ''a'' example_store) = Inr result \<and>
      \<lparr>name = ''A'', entityType = ''Concept'', observations = [''first''], subdomain = None\<rparr>
        \<in> set (entities result))"
proof -
  let ?x = "\<lparr>name = ''A'', entityType = ''Concept'', observations = [''first''],
             subdomain = None\<rparr>"
  let ?b = "\<lparr>name = ''B'', entityType = ''Component'', observations = [''second''],
             subdomain = Some ''core''\<rparr>"
  let ?e = "\<lparr>name = ''a'', entityType = ''T'', observations = [], subdomain = None\<rparr>"
  let ?e' = "\<lparr>name = ''A'', entityType = ''Other'', observations = [''x''], subdomain = None\<rparr>"
  have h1: "fst (loadGraph example_store) = Inr example_graph"
    by (simp add: load_example_store)
  have h2: "''a'' \<noteq> ''A''"
    by simp
  have h3: "toLowerCase ''a'' = toLowerCase ''A''"
    by code_simp
  have h4: "?x \<in> set (entities example_graph)"
    by (simp add: example_graph_def)
  have h5: "name ?x = ''A''"
    by simp
  have fresh: "''a'' \<notin> name ` set (entities example_graph)"
    by (simp add: example_graph_def)
  have first: "entities example_graph = [] @ ?x # [?b] \<and> name ?x = ''A'' \<and>
      (\<forall>e\<in>set []. name e \<noteq> ''A'')"
    by (simp add: example_graph_def)
  have single: "''a'' \<noteq> [] \<and> (\<forall>c\<in>set ''a''. \<not> isSeparator c)"
    by (simp add: isSeparator_nat)
  note all = names_compared_exactly [where e = ?e and e' = ?e' and cs = "[''first'', ''more'']",
      OF h1 h2 h3 h4 h5]
  from all fresh have create_n: "fst (createEntities [?e] example_store) = Inr [?e]"
    "fst (loadGraph (snd (createEntities [?e] example_store)))
       = Inr (example_graph\<lparr>entities := entities example_graph @ [?e]\<rparr>)"
    by simp_all
  from all have create_m: "fst (createEntities [?e'] example_store) = Inr []"
    "fst (loadGraph (snd (createEntities [?e'] example_store))) = Inr example_graph"
    by simp_all
  from all fresh
  have add_n: "fst (addObservations [\<lparr>entityName = ''a'', contents = [''first'', ''more'']\<rparr>]
      example_store) = Inl (NotFound ''a'')"
    by simp
  from all first
  have "fst (addObservations [\<lparr>entityName = ''A'', contents = [''first'', ''more'']\<rparr>] example_store)
         = Inr [\<lparr>resultName = ''A'',
                 addedObservations = filter (\<lambda>c. c \<notin> set (observations ?x)) [''first'', ''more'']\<rparr>] \<and>
       fst (loadGraph (snd (addObservations [\<lparr>entityName = ''A'', contents = [''first'', ''more'']\<rparr>] example_store)))
         = Inr (example_graph\<lparr>entities := [] @
             ?x\<lparr>observations := observations ?x @
                  filter (\<lambda>c. c \<notin> set (observations ?x)) [''first'', ''more'']\<rparr> # [?b]\<rparr>)"
    by blast
  then have add_m: "fst (addObservations [\<lparr>entityName = ''A'', contents = [''first'', ''more'']\<rparr>]
        example_store) = Inr [\<lparr>resultName = ''A'', addedObservations = [''more'']\<rparr>]"
    "fst (loadGraph (snd (addObservations
      [\<lparr>entityName = ''A'', contents = [''first'', ''more'']\<rparr>] example_store)))
     = Inr (example_graph\<lparr>entities :=
          [\<lparr>name = ''A'', entityType = ''Concept'', observations = [''first'', ''more''],
            subdomain = None\<rparr>, ?b]\<rparr>)"
    by simp_all
  from all have del: "fst (loadGraph (snd (deleteEntities [''a''] example_store))) = Inr example_graph"
    "fst (loadGraph (snd (deleteEntities [''A''] example_store)))
     = Inr \<lparr>entities = [?b], relations = []\<rparr>"
    by (simp_all add: example_graph_def)
  from all have opn: "fst (openNodes [''a''] example_store) = Inr \<lparr>entities = [], relations = []\<rparr>"
    "fst (openNodes [''A''] example_store) = Inr \<lparr>entities = [?x], relations = []\<rparr>"
    by (simp_all add: example_graph_def)
  from all single
  have search: "\<exists>result. fst (searchNodes ''a'' example_store) = Inr result \<and>
      ?x \<in> set (entities result)"
    by blast
  from h1 h2 h3 h4 fresh create_n create_m add_n add_m del opn search show ?thesis
    by (intro conjI)
qed

end
